theory Spec2Isabelle
  imports Main "HOL-Library.Word"
begin

section \<open>The container registry of the supervisor\<close>

text \<open>
  A shallow embedding of the package \<open>containers\<close>: the configuration set by \<open>Init\<close>,
  the state owned by \<open>containerManager\<close> (container map, free port pool, the two
  counters) and the two mutating handlers \<open>reserve\<close> and \<open>teardown\<close>.

  Go's \<open>uint16\<close> is a 16-bit word; Go's \<open>uint\<close> is taken at its 64-bit size. Both wrap
  around on \<open>+\<close>, \<open>-\<close> and \<open>*\<close>, as the word types do.
\<close>

type_synonym uint16 = "16 word"
type_synonym uint = "64 word"
type_synonym uint64 = "64 word"

subsection \<open>Data\<close>

text \<open>
  Modelled from the spec: the declarations of \<open>types.Manifest\<close> and \<open>Container\<close> are
  in other files of the repository. The spec gives a manifest the fields \<open>cpu_shares: uint\<close> and
  \<open>memory_limit: uint\<close>, and a container its id, primary port, SSH port, secondary
  ports and manifest; these are the fields the handlers read and write
  (\<open>Manifest.CPUShares\<close>, \<open>Manifest.MemoryLimit\<close>, \<open>Id\<close>, \<open>PrimaryPort\<close>, \<open>SSHPort\<close>,
  \<open>SecondaryPorts\<close>, \<open>Manifest\<close>). The manifest pointer of a request is taken to be
  non-nil.
\<close>

record Manifest =
  Manifest_CPUShares :: uint
  Manifest_MemoryLimit :: uint

record Container =
  Id :: string
  PrimaryPort :: uint16
  SSHPort :: uint16
  SecondaryPorts :: "uint16 list"
  Manifest :: Manifest

text \<open>The package variables that \<open>Init\<close> assigns and nothing else writes.\<close>

record config =
  RegistryHost :: string
  SaveDir :: string
  NumContainers :: uint16
  NumSecondaryPorts :: uint16
  MinPort :: uint16
  CPUShares :: uint
  MemoryLimit :: uint

text \<open>
  The package variables owned by \<open>containerManager\<close>, together with the two objects
  in the save directory (\<open>ContainersFile\<close> and \<open>PortsFile\<close>; \<open>None\<close> when the object
  cannot be retrieved).
\<close>

record state =
  containers :: "string \<rightharpoonup> Container"
  ports :: "uint16 list"
  usedMemoryLimit :: uint
  usedCPUShares :: uint
  ContainersFile :: "(string \<rightharpoonup> Container) option"
  PortsFile :: "uint16 list option"

record ReserveReq =
  reserve_id :: string
  reserve_manifest :: Manifest

record TeardownReq =
  teardown_id :: string

text \<open>
  The four errors of \<open>reserve\<close>, in the order of its checks. The two resource errors
  carry the numbers their message prints: the amount requested and the amount
  available (a wrapping subtraction, as in the source).
\<close>

datatype reserve_error =
    NoFreeContainers
  | IdInUse string
  | NotEnoughCPUShares uint uint
  | NotEnoughMemory uint uint

datatype init_error =
    InvalidConfig
  | MkdirAllError string

subsection \<open>Init\<close>

text \<open>
  The port range check of \<open>Init\<close>, in \<open>uint64\<close> arithmetic as the source writes it:
  \<open>uint64(MinPort)+(uint64(NumSecondaryPorts)+2)*uint64(NumContainers)-1 > 65535\<close>.
\<close>

definition port_range_exceeded :: "config \<Rightarrow> bool" where
  "port_range_exceeded cfg \<longleftrightarrow>
     (ucast (MinPort cfg) :: uint64)
       + ((ucast (NumSecondaryPorts cfg) :: uint64) + 2) * (ucast (NumContainers cfg) :: uint64)
       - 1 > 65535"

text \<open>
  \<open>Init\<close> assigns the package variables, checks the port range, creates the save
  directory and starts \<open>containerManager\<close>. The outcome of \<open>os.MkdirAll\<close> is a
  parameter (\<open>None\<close> for success). The result is the assigned configuration and the
  returned error; the actor is started exactly when no error is returned.
\<close>

definition Init ::
  "string \<Rightarrow> string \<Rightarrow> uint16 \<Rightarrow> uint16 \<Rightarrow> uint16 \<Rightarrow> uint \<Rightarrow> uint \<Rightarrow> string option
     \<Rightarrow> config \<times> init_error option" where
  "Init registry saveDir numContainers numSecondaryPorts minPort cpu memory mkdirAll =
     (let cfg = \<lparr>RegistryHost = registry, SaveDir = saveDir, NumContainers = numContainers,
                 NumSecondaryPorts = numSecondaryPorts, MinPort = minPort,
                 CPUShares = cpu, MemoryLimit = memory\<rparr>
      in if port_range_exceeded cfg then (cfg, Some InvalidConfig)
         else (case mkdirAll of
                 Some err \<Rightarrow> (cfg, Some (MkdirAllError err))
               | None \<Rightarrow> (cfg, None)))"

definition actor_started :: "config \<times> init_error option \<Rightarrow> bool" where
  "actor_started r \<longleftrightarrow> snd r = None"

subsection \<open>reserve\<close>

text \<open>
  The loop \<open>for i := uint16(0); i < NumSecondaryPorts; i++\<close> that fills the slice made by
  \<open>make([]uint16, NumSecondaryPorts)\<close>.
\<close>

function secondaryPorts_loop :: "config \<Rightarrow> uint16 \<Rightarrow> uint16 \<Rightarrow> uint16 list \<Rightarrow> uint16 list" where
  "secondaryPorts_loop cfg port i secondaryPorts =
     (if i < NumSecondaryPorts cfg
      then secondaryPorts_loop cfg port (i + 1)
             (secondaryPorts[unat i := MinPort cfg + (NumContainers cfg * (i + 2)) + port])
      else secondaryPorts)"
  by pat_completeness auto
termination
proof (relation "measure (\<lambda>(cfg, port, i, secondaryPorts). unat (NumSecondaryPorts cfg) - unat i)")
  show "wf (measure (\<lambda>(cfg, port, i, secondaryPorts). unat (NumSecondaryPorts cfg) - unat i))"
    by simp
next
  fix cfg :: config and port i :: uint16 and secondaryPorts :: "uint16 list"
  assume less: "i < NumSecondaryPorts cfg"
  then have a: "unat i < unat (NumSecondaryPorts cfg)"
    by (simp add: word_less_nat_alt)
  have b: "unat (NumSecondaryPorts cfg) < 2 ^ LENGTH(16)"
    by (rule unsigned_less)
  from a b have "unat i + unat (1 :: uint16) < 2 ^ LENGTH(16)"
    by (simp only: unat_1)
  then have "unat (i + 1) = unat i + unat (1 :: uint16)"
    by (rule unat_add_lem [THEN iffD1])
  then have "unat (i + 1) = Suc (unat i)"
    by simp
  with less show "((cfg, port, i + 1,
          secondaryPorts[unat i := MinPort cfg + NumContainers cfg * (i + 2) + port]),
         cfg, port, i, secondaryPorts)
        \<in> measure (\<lambda>(cfg, port, i, secondaryPorts). unat (NumSecondaryPorts cfg) - unat i)"
    by (simp add: word_less_nat_alt)
qed

declare secondaryPorts_loop.simps [simp del]

text \<open>
  The handler of a reservation. The result is the state at the moment the reply is
  sent on the response channel, and the reply; \<open>None\<close> is the panic of \<open>ports[0]\<close> on an
  empty pool.
\<close>

definition reserve ::
  "config \<Rightarrow> state \<Rightarrow> ReserveReq \<Rightarrow> (state \<times> (reserve_error + Container)) option" where
  "reserve cfg s req =
     (if int (card (dom (containers s))) \<ge> uint (NumContainers cfg)
      then Some (s, Inl NoFreeContainers)
      else if containers s (reserve_id req) \<noteq> None
      then Some (s, Inl (IdInUse (reserve_id req)))
      else if Manifest_CPUShares (reserve_manifest req) + usedCPUShares s > CPUShares cfg
      then Some (s, Inl (NotEnoughCPUShares (Manifest_CPUShares (reserve_manifest req))
                           (CPUShares cfg - usedCPUShares s)))
      else if Manifest_MemoryLimit (reserve_manifest req) + usedMemoryLimit s > MemoryLimit cfg
      then Some (s, Inl (NotEnoughMemory (Manifest_MemoryLimit (reserve_manifest req))
                           (MemoryLimit cfg - usedMemoryLimit s)))
      else (case ports s of
              [] \<Rightarrow> None
            | port # rest \<Rightarrow>
                let secondaryPorts =
                      secondaryPorts_loop cfg port 0
                        (replicate (unat (NumSecondaryPorts cfg)) 0);
                    container =
                      \<lparr>Id = reserve_id req, PrimaryPort = MinPort cfg + port,
                       SSHPort = MinPort cfg + NumContainers cfg + port,
                       SecondaryPorts = secondaryPorts, Manifest = reserve_manifest req\<rparr>
                in Some (s\<lparr>containers := (containers s)(reserve_id req \<mapsto> container),
                           ports := rest,
                           usedMemoryLimit :=
                             usedMemoryLimit s + Manifest_MemoryLimit (reserve_manifest req),
                           usedCPUShares :=
                             usedCPUShares s + Manifest_CPUShares (reserve_manifest req)\<rparr>,
                         Inr container)))"

subsection \<open>teardown\<close>

text \<open>
  Modelled from the spec: the method \<open>Container.teardown\<close> and the function \<open>save\<close> are
  called by \<open>teardown\<close> and defined in other files of the repository. The spec describes the
  first as an abstract hook of the container-execution collaborator whose outcome the
  registry does not observe; it leaves the bookkeeping record as it is. The spec
  describes the second as writing two named snapshots, the container map and the
  free-slot pool, to the save directory.
\<close>

definition Container_teardown :: "Container \<Rightarrow> Container" where
  "Container_teardown c = c"

definition save :: "state \<Rightarrow> state" where
  "save s = s\<lparr>ContainersFile := Some (containers s), PortsFile := Some (ports s)\<rparr>"

text \<open>
  The result is the state at the moment the reply is sent on the response channel,
  and the reply.
\<close>

definition teardown :: "config \<Rightarrow> state \<Rightarrow> TeardownReq \<Rightarrow> state \<times> bool" where
  "teardown cfg s req =
     (case containers s (teardown_id req) of
        Some container \<Rightarrow>
          let s1 = s\<lparr>containers := (containers s)(teardown_id req \<mapsto> Container_teardown container)\<rparr>;
              c = the (containers s1 (teardown_id req));
              s2 = s1\<lparr>ports := ports s1 @ [PrimaryPort c - MinPort cfg]\<rparr>;
              s3 = s2\<lparr>usedMemoryLimit := usedMemoryLimit s2 - Manifest_MemoryLimit (Manifest c)\<rparr>;
              s4 = s3\<lparr>usedCPUShares := usedCPUShares s3 - Manifest_CPUShares (Manifest c)\<rparr>;
              s5 = s4\<lparr>containers := (containers s4)(teardown_id req := None)\<rparr>
          in (save s5, True)
      | None \<Rightarrow> (s, False))"

subsection \<open>Start of containerManager\<close>

text \<open>The loop \<open>for i := uint16(0); i < NumContainers; i++ { ports[i] = i }\<close>.\<close>

function ports_loop :: "config \<Rightarrow> uint16 \<Rightarrow> uint16 list \<Rightarrow> uint16 list" where
  "ports_loop cfg i ps =
     (if i < NumContainers cfg then ports_loop cfg (i + 1) (ps[unat i := i]) else ps)"
  by pat_completeness auto
termination
proof (relation "measure (\<lambda>(cfg, i, ps). unat (NumContainers cfg) - unat i)")
  show "wf (measure (\<lambda>(cfg, i, ps). unat (NumContainers cfg) - unat i))"
    by simp
next
  fix cfg :: config and i :: uint16 and ps :: "uint16 list"
  assume less: "i < NumContainers cfg"
  then have a: "unat i < unat (NumContainers cfg)"
    by (simp add: word_less_nat_alt)
  have b: "unat (NumContainers cfg) < 2 ^ LENGTH(16)"
    by (rule unsigned_less)
  from a b have "unat i + unat (1 :: uint16) < 2 ^ LENGTH(16)"
    by (simp only: unat_1)
  then have "unat (i + 1) = unat i + unat (1 :: uint16)"
    by (rule unat_add_lem [THEN iffD1])
  then have "unat (i + 1) = Suc (unat i)"
    by simp
  with less show "((cfg, i + 1, ps[unat i := i]), cfg, i, ps)
        \<in> measure (\<lambda>(cfg, i, ps). unat (NumContainers cfg) - unat i)"
    by (simp add: word_less_nat_alt)
qed

declare ports_loop.simps [simp del]

text \<open>
  The loop \<open>for _, cont := range containers\<close> that rebuilds the two counters. Go
  visits the keys of a map in an order of its own choosing: the order is the list
  \<open>ks\<close>, an enumeration of the keys.
\<close>

fun range_loop :: "(string \<rightharpoonup> Container) \<Rightarrow> string list \<Rightarrow> uint \<times> uint \<Rightarrow> uint \<times> uint" where
  "range_loop cs [] acc = acc"
| "range_loop cs (k # ks) (cpu, mem) =
     (case cs k of
        None \<Rightarrow> range_loop cs ks (cpu, mem)
      | Some cont \<Rightarrow>
          range_loop cs ks (cpu + Manifest_CPUShares (Manifest cont),
                            mem + Manifest_MemoryLimit (Manifest cont)))"

definition enumerates :: "string list \<Rightarrow> (string \<rightharpoonup> Container) \<Rightarrow> bool" where
  "enumerates ks cs \<longleftrightarrow> distinct ks \<and> set ks = dom cs"

text \<open>
  The start of \<open>containerManager\<close>, up to the request loop. The two arguments \<open>cf\<close> and
  \<open>pf\<close> are what \<open>retrieveObject\<close> finds for \<open>ContainersFile\<close> and \<open>PortsFile\<close> (\<open>None\<close>
  when it returns false), \<open>ks\<close> is the order in which the range loop visits the
  loaded map.
\<close>

definition containerManager ::
  "config \<Rightarrow> (string \<rightharpoonup> Container) option \<Rightarrow> uint16 list option \<Rightarrow> string list \<Rightarrow> state" where
  "containerManager cfg cf pf ks =
     (let cs = (case cf of None \<Rightarrow> Map.empty | Some m \<Rightarrow> m);
          ps = (case pf of
                  None \<Rightarrow> ports_loop cfg 0 (replicate (unat (NumContainers cfg)) 0)
                | Some p \<Rightarrow> p);
          used = range_loop cs ks (0, 0)
      in \<lparr>containers = cs, ports = ps, usedMemoryLimit = snd used, usedCPUShares = fst used,
          ContainersFile = cf, PortsFile = pf\<rparr>)"

subsection \<open>The request loop\<close>

text \<open>
  The two mutating cases of the \<open>select\<close> in \<open>containerManager\<close>: a request is handled
  to completion before the next one is received. \<open>None\<close> is a panic of the handler
  (\<open>ports[0]\<close> on an empty pool).
\<close>

datatype request = ReserveRequest ReserveReq | TeardownRequest TeardownReq

fun handle :: "config \<Rightarrow> state \<Rightarrow> request \<Rightarrow> state option" where
  "handle cfg s (ReserveRequest req) = map_option fst (reserve cfg s req)"
| "handle cfg s (TeardownRequest req) = Some (fst (teardown cfg s req))"

fun serve :: "config \<Rightarrow> state \<Rightarrow> request list \<Rightarrow> state option" where
  "serve cfg s [] = Some s"
| "serve cfg s (r # rs) = (case handle cfg s r of None \<Rightarrow> None | Some s' \<Rightarrow> serve cfg s' rs)"

section \<open>Notions used to state the properties\<close>

subsection \<open>Accounting\<close>

text \<open>The sums of the manifest fields over the active containers, as natural numbers.\<close>

definition cpu_sum :: "(string \<rightharpoonup> Container) \<Rightarrow> nat" where
  "cpu_sum cs = (\<Sum>k\<in>dom cs. unat (Manifest_CPUShares (Manifest (the (cs k)))))"

definition memory_sum :: "(string \<rightharpoonup> Container) \<Rightarrow> nat" where
  "memory_sum cs = (\<Sum>k\<in>dom cs. unat (Manifest_MemoryLimit (Manifest (the (cs k)))))"

text \<open>The counters agree with the active containers and respect the two limits.\<close>

definition accounted :: "config \<Rightarrow> state \<Rightarrow> bool" where
  "accounted cfg s \<longleftrightarrow>
     unat (usedCPUShares s) = cpu_sum (containers s) \<and>
     cpu_sum (containers s) \<le> unat (CPUShares cfg) \<and>
     unat (usedMemoryLimit s) = memory_sum (containers s) \<and>
     memory_sum (containers s) \<le> unat (MemoryLimit cfg)"

text \<open>
  A reservation fits when adding its manifest to the counters stays within the range
  of \<open>uint\<close>; a run fits when each of its reservations does, in the state in which it is
  handled.
\<close>

fun fits :: "state \<Rightarrow> request \<Rightarrow> bool" where
  "fits s (ReserveRequest req) \<longleftrightarrow>
     unat (Manifest_CPUShares (reserve_manifest req)) + unat (usedCPUShares s) < 2 ^ 64 \<and>
     unat (Manifest_MemoryLimit (reserve_manifest req)) + unat (usedMemoryLimit s) < 2 ^ 64"
| "fits s (TeardownRequest req) \<longleftrightarrow> True"

fun run_fits :: "config \<Rightarrow> state \<Rightarrow> request list \<Rightarrow> bool" where
  "run_fits cfg s [] \<longleftrightarrow> True"
| "run_fits cfg s (r # rs) \<longleftrightarrow>
     fits s r \<and> (case handle cfg s r of None \<Rightarrow> True | Some s' \<Rightarrow> run_fits cfg s' rs)"

subsection \<open>Ports and slots\<close>

text \<open>The value that \<open>reserve\<close> stores at index \<open>i\<close> of the secondary ports.\<close>

definition secondary_port :: "config \<Rightarrow> uint16 \<Rightarrow> nat \<Rightarrow> uint16" where
  "secondary_port cfg port i = MinPort cfg + NumContainers cfg * (of_nat i + 2) + port"

text \<open>The slot index that \<open>teardown\<close> recovers from a container.\<close>

definition slot_of :: "config \<Rightarrow> Container \<Rightarrow> uint16" where
  "slot_of cfg c = PrimaryPort c - MinPort cfg"

text \<open>
  The slot indices occupied by the active containers, and the ports a container
  holds.
\<close>

definition occupied :: "config \<Rightarrow> (string \<rightharpoonup> Container) \<Rightarrow> uint16 set" where
  "occupied cfg cs = slot_of cfg ` ran cs"

definition container_ports :: "Container \<Rightarrow> uint16 set" where
  "container_ports c = {PrimaryPort c, SSHPort c} \<union> set (SecondaryPorts c)"

subsection \<open>The port range bound\<close>

text \<open>The left-hand side of the port range bound, before the \<open>- 1\<close>, as a natural number.\<close>

definition port_total :: "config \<Rightarrow> nat" where
  "port_total cfg =
     unat (MinPort cfg) + (unat (NumSecondaryPorts cfg) + 2) * unat (NumContainers cfg)"

text \<open>
  The bound of the spec, \<open>MinPort + (NumSecondaryPorts + 2) * NumContainers - 1 \<le> 65535\<close>,
  is violated: the comparison in the integers, where nothing wraps around.
\<close>

definition port_bound_violated :: "config \<Rightarrow> bool" where
  "port_bound_violated cfg \<longleftrightarrow>
     int (unat (MinPort cfg))
       + (int (unat (NumSecondaryPorts cfg)) + 2) * int (unat (NumContainers cfg)) - 1 > 65535"

subsection \<open>The checks of a reservation\<close>

text \<open>
  The four checks of a reservation in their order, each with the error it
  stands for, and the first one that fails.
\<close>

definition checks :: "config \<Rightarrow> state \<Rightarrow> ReserveReq \<Rightarrow> (bool \<times> reserve_error) list" where
  "checks cfg s req =
     [(unat (NumContainers cfg) \<le> card (dom (containers s)), NoFreeContainers),
      (reserve_id req \<in> dom (containers s), IdInUse (reserve_id req)),
      (CPUShares cfg < Manifest_CPUShares (reserve_manifest req) + usedCPUShares s,
         NotEnoughCPUShares (Manifest_CPUShares (reserve_manifest req))
           (CPUShares cfg - usedCPUShares s)),
      (MemoryLimit cfg < Manifest_MemoryLimit (reserve_manifest req) + usedMemoryLimit s,
         NotEnoughMemory (Manifest_MemoryLimit (reserve_manifest req))
           (MemoryLimit cfg - usedMemoryLimit s))]"

definition first_failing_check :: "config \<Rightarrow> state \<Rightarrow> ReserveReq \<Rightarrow> reserve_error option" where
  "first_failing_check cfg s req = map_option snd (find fst (checks cfg s req))"

subsection \<open>Reachable states\<close>

text \<open>The container map after the start: the loaded one, or the empty map.\<close>

definition loaded_map :: "(string \<rightharpoonup> Container) option \<Rightarrow> (string \<rightharpoonup> Container)" where
  "loaded_map cf = (case cf of None \<Rightarrow> Map.empty | Some m \<Rightarrow> m)"

text \<open>The state after a start with an empty save directory.\<close>

definition fresh_state :: "config \<Rightarrow> state" where
  "fresh_state cfg = containerManager cfg None None []"

text \<open>The free pool after the start: the loaded one, or the slot indices in order.\<close>

definition loaded_pool :: "config \<Rightarrow> uint16 list option \<Rightarrow> uint16 list" where
  "loaded_pool cfg pf =
     (case pf of None \<Rightarrow> map of_nat [0..<unat (NumContainers cfg)] | Some p \<Rightarrow> p)"

text \<open>
  The registry states that can be reached from the state \<open>s0\<close> in which the request
  loop is entered: by reservations, teardowns and restarts, a restart being a new
  start of \<open>containerManager\<close> on the objects of the save directory. The state \<open>s0\<close> is
  any state that \<open>containerManager\<close> starts with, whatever it finds in the save
  directory.
\<close>

inductive reachable :: "config \<Rightarrow> state \<Rightarrow> state \<Rightarrow> bool" for cfg :: config and s0 :: state where
  started: "reachable cfg s0 s0"
| reserved: "reachable cfg s0 s \<Longrightarrow> reserve cfg s req = Some (s', resp) \<Longrightarrow> reachable cfg s0 s'"
| torn_down: "reachable cfg s0 s \<Longrightarrow> teardown cfg s treq = (s', ok) \<Longrightarrow> reachable cfg s0 s'"
| restarted: "reachable cfg s0 s \<Longrightarrow> enumerates ks (loaded_map (ContainersFile s)) \<Longrightarrow>
     reachable cfg s0 (containerManager cfg (ContainersFile s) (PortsFile s) ks)"

text \<open>
  A container map and a free pool partition the slot indices: the pool has no
  duplicates, different containers have different slots, and the slots of the
  containers and the pool are disjoint and together the indices below
  \<open>NumContainers\<close>.
\<close>

definition partition_ok :: "config \<Rightarrow> (string \<rightharpoonup> Container) \<Rightarrow> uint16 list \<Rightarrow> bool" where
  "partition_ok cfg cs ps \<longleftrightarrow>
     finite (dom cs) \<and> distinct ps \<and>
     (\<forall>a b ca cb. cs a = Some ca \<longrightarrow> cs b = Some cb \<longrightarrow> slot_of cfg ca = slot_of cfg cb
        \<longrightarrow> a = b) \<and>
     occupied cfg cs \<inter> set ps = {} \<and>
     occupied cfg cs \<union> set ps = {w. w < NumContainers cfg}"

text \<open>
  A container holds the ports derived from its slot under the configuration, and
  every container of a map does.
\<close>

definition ports_derived :: "config \<Rightarrow> Container \<Rightarrow> bool" where
  "ports_derived cfg c \<longleftrightarrow>
     SSHPort c = MinPort cfg + NumContainers cfg + slot_of cfg c \<and>
     SecondaryPorts c
       = map (secondary_port cfg (slot_of cfg c)) [0..<unat (NumSecondaryPorts cfg)]"

definition all_derived :: "config \<Rightarrow> (string \<rightharpoonup> Container) \<Rightarrow> bool" where
  "all_derived cfg cs \<longleftrightarrow> (\<forall>c \<in> ran cs. ports_derived cfg c)"

text \<open>
  The two invariants of a state: each holds of the container map and the pool, and of
  what a restart would load from the save directory.
\<close>

definition partition_inv :: "config \<Rightarrow> state \<Rightarrow> bool" where
  "partition_inv cfg s \<longleftrightarrow>
     partition_ok cfg (containers s) (ports s) \<and>
     partition_ok cfg (loaded_map (ContainersFile s)) (loaded_pool cfg (PortsFile s))"

definition derived_inv :: "config \<Rightarrow> state \<Rightarrow> bool" where
  "derived_inv cfg s \<longleftrightarrow>
     all_derived cfg (containers s) \<and> all_derived cfg (loaded_map (ContainersFile s))"

section \<open>Example configurations and states\<close>

text \<open>
  The configuration of the port example (\<open>MinPort = 1000\<close>, \<open>NumContainers = 4\<close>,
  \<open>NumSecondaryPorts = 2\<close>), the same with two slots, and a state of the latter in
  which both slots are taken.
\<close>

definition example_cfg :: config where
  "example_cfg = \<lparr>RegistryHost = ''registry'', SaveDir = ''save'', NumContainers = 4,
     NumSecondaryPorts = 2, MinPort = 1000, CPUShares = 10, MemoryLimit = 1024\<rparr>"

definition two_slot_cfg :: config where
  "two_slot_cfg = example_cfg\<lparr>NumContainers := 2\<rparr>"

definition container_a :: Container where
  "container_a = \<lparr>Id = ''a'', PrimaryPort = 1000, SSHPort = 1002, SecondaryPorts = [1004, 1006],
     Manifest = \<lparr>Manifest_CPUShares = 6, Manifest_MemoryLimit = 64\<rparr>\<rparr>"

definition container_b :: Container where
  "container_b = \<lparr>Id = ''b'', PrimaryPort = 1001, SSHPort = 1003, SecondaryPorts = [1005, 1007],
     Manifest = \<lparr>Manifest_CPUShares = 1, Manifest_MemoryLimit = 64\<rparr>\<rparr>"

definition full_state :: state where
  "full_state = \<lparr>containers = [''a'' \<mapsto> container_a, ''b'' \<mapsto> container_b], ports = [],
     usedMemoryLimit = 128, usedCPUShares = 7, ContainersFile = None, PortsFile = None\<rparr>"

text \<open>
  A request that fails every check in the full state, and one that passes every check
  in a fresh state.
\<close>

definition greedy_req :: ReserveReq where
  "greedy_req = \<lparr>reserve_id = ''a'',
     reserve_manifest = \<lparr>Manifest_CPUShares = 5, Manifest_MemoryLimit = 2048\<rparr>\<rparr>"

definition small_req :: ReserveReq where
  "small_req = \<lparr>reserve_id = ''c'',
     reserve_manifest = \<lparr>Manifest_CPUShares = 1, Manifest_MemoryLimit = 64\<rparr>\<rparr>"

text \<open>
  The state in which slot 3 is at the head of the pool, and the containers that the
  port example of the spec expects for slot 0 and slot 3.
\<close>

definition recycled_state :: state where
  "recycled_state = (fresh_state example_cfg)\<lparr>ports := [3, 0, 1, 2]\<rparr>"

definition slot0_container :: Container where
  "slot0_container = \<lparr>Id = ''c'', PrimaryPort = 1000, SSHPort = 1004,
     SecondaryPorts = [1008, 1012],
     Manifest = \<lparr>Manifest_CPUShares = 1, Manifest_MemoryLimit = 64\<rparr>\<rparr>"

definition slot3_container :: Container where
  "slot3_container = \<lparr>Id = ''c'', PrimaryPort = 1003, SSHPort = 1007,
     SecondaryPorts = [1011, 1015],
     Manifest = \<lparr>Manifest_CPUShares = 1, Manifest_MemoryLimit = 64\<rparr>\<rparr>"

text \<open>
  Two calls of \<open>Init\<close>: one in which the save directory cannot be created, one with
  \<open>MinPort = 0\<close> and \<open>NumContainers = 0\<close>.
\<close>

definition mkdir_refused_init :: "config \<times> init_error option" where
  "mkdir_refused_init = Init ''registry'' ''save'' 4 2 1000 10 1024 (Some ''permission denied'')"

definition zero_init :: "config \<times> init_error option" where
  "zero_init = Init ''registry'' ''save'' 0 2 0 10 1024 None"

text \<open>
  Two runs for the accounting property: a start from a snapshot whose containers ask
  for more CPU shares than the configuration now grants, and a fresh start followed
  by a reservation of one CPU share and one of \<open>2 ^ 64 - 1\<close> CPU shares.
\<close>

definition overcommitted_cfg :: config where
  "overcommitted_cfg = two_slot_cfg\<lparr>CPUShares := 5\<rparr>"

definition overcommitted_start :: state where
  "overcommitted_start =
     containerManager overcommitted_cfg (Some [''a'' \<mapsto> container_a, ''b'' \<mapsto> container_b])
       (Some []) [''a'', ''b'']"

definition huge_req :: ReserveReq where
  "huge_req = \<lparr>reserve_id = ''d'',
     reserve_manifest = \<lparr>Manifest_CPUShares = 18446744073709551615, Manifest_MemoryLimit = 0\<rparr>\<rparr>"

definition wrapped_state :: state where
  "wrapped_state =
     \<lparr>containers = [''c'' \<mapsto> slot0_container,
                     ''d'' \<mapsto> \<lparr>Id = ''d'', PrimaryPort = 1001, SSHPort = 1005,
                               SecondaryPorts = [1009, 1013],
                               Manifest = reserve_manifest huge_req\<rparr>],
      ports = [2, 3], usedMemoryLimit = 64, usedCPUShares = 0,
      ContainersFile = None, PortsFile = None\<rparr>"

text \<open>
  Starts on a save directory that holds one object only: the containers object with a
  container on slot 0 and no ports object, and a ports object \<open>[2, 3]\<close> with no containers
  object. The state after a reservation in the former.
\<close>

definition held_container :: Container where
  "held_container = \<lparr>Id = ''a'', PrimaryPort = 1000, SSHPort = 1004,
     SecondaryPorts = [1008, 1012],
     Manifest = \<lparr>Manifest_CPUShares = 1, Manifest_MemoryLimit = 64\<rparr>\<rparr>"

definition half_loaded :: state where
  "half_loaded = containerManager example_cfg (Some [''a'' \<mapsto> held_container]) None [''a'']"

definition pool_only :: state where
  "pool_only = containerManager example_cfg None (Some [2, 3]) []"

definition double_booked :: state where
  "double_booked =
     \<lparr>containers = [''a'' \<mapsto> held_container, ''c'' \<mapsto> slot0_container],
      ports = [1, 2, 3], usedMemoryLimit = 128, usedCPUShares = 2,
      ContainersFile = Some [''a'' \<mapsto> held_container], PortsFile = None\<rparr>"

text \<open>
  A start on a snapshot that partitions the slots but whose first container holds the
  ports of slot 0 for \<open>NumContainers = 1\<close>, next to a container on slot 1.
\<close>

definition stale_container :: Container where
  "stale_container = \<lparr>Id = ''a'', PrimaryPort = 1000, SSHPort = 1001,
     SecondaryPorts = [1002, 1003],
     Manifest = \<lparr>Manifest_CPUShares = 1, Manifest_MemoryLimit = 64\<rparr>\<rparr>"

definition slot1_container :: Container where
  "slot1_container = \<lparr>Id = ''d'', PrimaryPort = 1001, SSHPort = 1005,
     SecondaryPorts = [1009, 1013],
     Manifest = \<lparr>Manifest_CPUShares = 1, Manifest_MemoryLimit = 64\<rparr>\<rparr>"

definition renumbered_start :: state where
  "renumbered_start =
     containerManager example_cfg (Some [''a'' \<mapsto> stale_container, ''d'' \<mapsto> slot1_container])
       (Some [2, 3]) [''a'', ''d'']"

section \<open>The iterations in closed form\<close>

lemma unat_inc_less: "(i :: 'a::len word) < n \<Longrightarrow> unat (i + 1) = Suc (unat i)"
proof -
  assume "i < n"
  then have a: "unat i < unat n" by (simp add: word_less_nat_alt)
  have b: "unat n < 2 ^ LENGTH('a)" by (rule unsigned_less)
  from a b have "unat i + unat (1::'a word) < 2 ^ LENGTH('a)" by (simp only: unat_1)
  then have "unat (i + 1) = unat i + unat (1::'a word)"
    by (rule unat_add_lem [THEN iffD1])
  then show ?thesis by simp
qed

lemma secondaryPorts_loop_gen:
  "length acc = unat (NumSecondaryPorts cfg) \<Longrightarrow> i \<le> NumSecondaryPorts cfg \<Longrightarrow>
   secondaryPorts_loop cfg port i acc =
     take (unat i) acc @ map (secondary_port cfg port) [unat i..<unat (NumSecondaryPorts cfg)]"
proof (induction cfg port i acc rule: secondaryPorts_loop.induct)
  case (1 cfg port i acc)
  show ?case
  proof (cases "i < NumSecondaryPorts cfg")
    case True
    then have suc: "unat (i + 1) = Suc (unat i)" by (rule unat_inc_less)
    from True have lt: "unat i < unat (NumSecondaryPorts cfg)" by (simp add: word_less_nat_alt)
    from True have le: "i + 1 \<le> NumSecondaryPorts cfg" by (rule inc_le)
    have len: "length (acc[unat i := MinPort cfg + NumContainers cfg * (i + 2) + port])
                 = unat (NumSecondaryPorts cfg)"
      using "1.prems"(1) by simp
    have ih: "secondaryPorts_loop cfg port (i + 1)
                (acc[unat i := MinPort cfg + NumContainers cfg * (i + 2) + port]) =
              take (unat (i + 1)) (acc[unat i := MinPort cfg + NumContainers cfg * (i + 2) + port])
                @ map (secondary_port cfg port) [unat (i + 1)..<unat (NumSecondaryPorts cfg)]"
      using "1.IH" [OF True len le] .
    have tk: "take (Suc (unat i)) (acc[unat i := MinPort cfg + NumContainers cfg * (i + 2) + port])
                = take (unat i) acc @ [secondary_port cfg port (unat i)]"
      using lt "1.prems"(1)
      by (simp add: take_Suc_conv_app_nth secondary_port_def)
    have up: "[unat i..<unat (NumSecondaryPorts cfg)]
                = unat i # [Suc (unat i)..<unat (NumSecondaryPorts cfg)]"
      using lt by (simp add: upt_conv_Cons)
    have "secondaryPorts_loop cfg port i acc =
            secondaryPorts_loop cfg port (i + 1)
              (acc[unat i := MinPort cfg + NumContainers cfg * (i + 2) + port])"
      using True by (simp add: secondaryPorts_loop.simps [of cfg port i acc])
    also note ih
    finally show ?thesis
      by (simp only: suc tk up list.map append_assoc append_Cons append_Nil)
  next
    case False
    with "1.prems"(2) have "i = NumSecondaryPorts cfg" by simp
    moreover from False have "secondaryPorts_loop cfg port i acc = acc"
      by (simp add: secondaryPorts_loop.simps [of cfg port i acc])
    ultimately show ?thesis
      using "1.prems"(1) by simp
  qed
qed

lemma secondaryPorts_loop_eq:
  "secondaryPorts_loop cfg port 0 (replicate (unat (NumSecondaryPorts cfg)) 0) =
     map (secondary_port cfg port) [0..<unat (NumSecondaryPorts cfg)]"
  using secondaryPorts_loop_gen [of "replicate (unat (NumSecondaryPorts cfg)) 0" cfg 0 port]
  by simp

lemma ports_loop_gen:
  "length ps = unat (NumContainers cfg) \<Longrightarrow> i \<le> NumContainers cfg \<Longrightarrow>
   ports_loop cfg i ps = take (unat i) ps @ map of_nat [unat i..<unat (NumContainers cfg)]"
proof (induction cfg i ps rule: ports_loop.induct)
  case (1 cfg i ps)
  show ?case
  proof (cases "i < NumContainers cfg")
    case True
    then have suc: "unat (i + 1) = Suc (unat i)" by (rule unat_inc_less)
    from True have lt: "unat i < unat (NumContainers cfg)" by (simp add: word_less_nat_alt)
    from True have le: "i + 1 \<le> NumContainers cfg" by (rule inc_le)
    have len: "length (ps[unat i := i]) = unat (NumContainers cfg)"
      using "1.prems"(1) by simp
    have ih: "ports_loop cfg (i + 1) (ps[unat i := i]) =
              take (unat (i + 1)) (ps[unat i := i])
                @ map of_nat [unat (i + 1)..<unat (NumContainers cfg)]"
      using "1.IH" [OF True len le] .
    have tk: "take (Suc (unat i)) (ps[unat i := i]) = take (unat i) ps @ [of_nat (unat i)]"
      using lt "1.prems"(1) by (simp add: take_Suc_conv_app_nth)
    have up: "[unat i..<unat (NumContainers cfg)] = unat i # [Suc (unat i)..<unat (NumContainers cfg)]"
      using lt by (simp add: upt_conv_Cons)
    have "ports_loop cfg i ps = ports_loop cfg (i + 1) (ps[unat i := i])"
      using True by (simp add: ports_loop.simps [of cfg i ps])
    also note ih
    finally show ?thesis
      by (simp only: suc tk up list.map append_assoc append_Cons append_Nil)
  next
    case False
    with "1.prems"(2) have "i = NumContainers cfg" by simp
    moreover from False have "ports_loop cfg i ps = ps"
      by (simp add: ports_loop.simps [of cfg i ps])
    ultimately show ?thesis
      using "1.prems"(1) by simp
  qed
qed

lemma ports_loop_eq:
  "ports_loop cfg 0 (replicate (unat (NumContainers cfg)) 0) =
     map of_nat [0..<unat (NumContainers cfg)]"
  using ports_loop_gen [of "replicate (unat (NumContainers cfg)) 0" cfg 0]
  by simp

lemma range_loop_sum:
  "distinct ks \<Longrightarrow> set ks \<subseteq> dom cs \<Longrightarrow>
   range_loop cs ks (a, b) =
     (a + of_nat (\<Sum>k\<in>set ks. unat (Manifest_CPUShares (Manifest (the (cs k))))),
      b + of_nat (\<Sum>k\<in>set ks. unat (Manifest_MemoryLimit (Manifest (the (cs k))))))"
proof (induction ks arbitrary: a b)
  case Nil
  then show ?case by simp
next
  case (Cons k ks)
  from Cons.prems obtain c where c: "cs k = Some c" by auto
  from Cons.prems have d: "distinct ks" "set ks \<subseteq> dom cs" "k \<notin> set ks" by auto
  show ?case
    using c d Cons.IH [OF d(1) d(2)]
    by (simp add: add.assoc)
qed

lemma range_loop_enumerates:
  "enumerates ks cs \<Longrightarrow>
   range_loop cs ks (0, 0) = (of_nat (cpu_sum cs), of_nat (memory_sum cs))"
  using range_loop_sum [of ks cs 0 0]
  by (simp add: enumerates_def cpu_sum_def memory_sum_def)

lemma unat_of_nat_64: "unat (of_nat n :: uint) = n mod 2 ^ 64"
  by (simp add: unat_of_nat)

lemma containerManager_fields:
  "containers (containerManager cfg cf pf ks) = loaded_map cf"
  "ports (containerManager cfg cf pf ks) =
     (case pf of None \<Rightarrow> map of_nat [0..<unat (NumContainers cfg)] | Some p \<Rightarrow> p)"
  "ContainersFile (containerManager cfg cf pf ks) = cf"
  "PortsFile (containerManager cfg cf pf ks) = pf"
  "usedCPUShares (containerManager cfg cf pf ks) = fst (range_loop (loaded_map cf) ks (0, 0))"
  "usedMemoryLimit (containerManager cfg cf pf ks) = snd (range_loop (loaded_map cf) ks (0, 0))"
  by (simp_all add: containerManager_def loaded_map_def ports_loop_eq Let_def split: option.splits)

lemma fresh_state_eq:
  "fresh_state cfg =
     \<lparr>containers = Map.empty, ports = map of_nat [0..<unat (NumContainers cfg)],
      usedMemoryLimit = 0, usedCPUShares = 0, ContainersFile = None, PortsFile = None\<rparr>"
  by (simp add: fresh_state_def containerManager_def ports_loop_eq)

section \<open>The port range check\<close>

lemma unat_ucast_16_64: "unat (ucast (w :: uint16) :: uint64) = unat w"
proof -
  have "unat w < 2 ^ LENGTH(16)" by (rule unsigned_less)
  then have "unat w < 2 ^ 64" by simp
  then have "take_bit 64 (unat w) = unat w" by (simp add: take_bit_nat_eq_self)
  then show ?thesis by (simp add: unsigned_ucast_eq)
qed

lemma unat_16_bound: "unat (w :: uint16) \<le> 65535"
  using unsigned_less [of w, where 'a = nat] by simp

lemma port_total_unat:
  "unat ((ucast (MinPort cfg) :: uint64)
       + ((ucast (NumSecondaryPorts cfg) :: uint64) + 2) * (ucast (NumContainers cfg) :: uint64))
   = unat (MinPort cfg) + (unat (NumSecondaryPorts cfg) + 2) * unat (NumContainers cfg)"
proof -
  have m: "unat (MinPort cfg) \<le> 65535" and n: "unat (NumContainers cfg) \<le> 65535"
    and k: "unat (NumSecondaryPorts cfg) \<le> 65535"
    by (rule unat_16_bound)+
  from k n have prod: "(unat (NumSecondaryPorts cfg) + 2) * unat (NumContainers cfg) \<le> 65537 * 65535"
    by (intro mult_le_mono) simp_all
  have two: "unat ((ucast (NumSecondaryPorts cfg) :: uint64) + 2) = unat (NumSecondaryPorts cfg) + 2"
    using k by (simp add: unat_word_ariths unat_ucast_16_64)
  have "unat (((ucast (NumSecondaryPorts cfg) :: uint64) + 2) * (ucast (NumContainers cfg) :: uint64))
          = unat ((ucast (NumSecondaryPorts cfg) :: uint64) + 2)
              * unat (ucast (NumContainers cfg) :: uint64) mod 2 ^ LENGTH(64)"
    by (rule unat_word_ariths(2))
  also have "\<dots> = (unat (NumSecondaryPorts cfg) + 2) * unat (NumContainers cfg) mod 2 ^ LENGTH(64)"
    by (simp only: two unat_ucast_16_64)
  also have "\<dots> = (unat (NumSecondaryPorts cfg) + 2) * unat (NumContainers cfg)"
    using prod by simp
  finally have mul:
    "unat (((ucast (NumSecondaryPorts cfg) :: uint64) + 2) * (ucast (NumContainers cfg) :: uint64))
       = (unat (NumSecondaryPorts cfg) + 2) * unat (NumContainers cfg)" .
  have "unat ((ucast (MinPort cfg) :: uint64)
       + ((ucast (NumSecondaryPorts cfg) :: uint64) + 2) * (ucast (NumContainers cfg) :: uint64))
     = (unat (ucast (MinPort cfg) :: uint64)
        + unat (((ucast (NumSecondaryPorts cfg) :: uint64) + 2) * (ucast (NumContainers cfg) :: uint64)))
        mod 2 ^ LENGTH(64)"
    by (rule unat_word_ariths(1))
  also have "\<dots> = (unat (MinPort cfg) + (unat (NumSecondaryPorts cfg) + 2) * unat (NumContainers cfg))
        mod 2 ^ LENGTH(64)"
    by (simp only: mul unat_ucast_16_64)
  also have "\<dots> = unat (MinPort cfg) + (unat (NumSecondaryPorts cfg) + 2) * unat (NumContainers cfg)"
    using prod m by simp
  finally show ?thesis .
qed

lemma port_range_exceeded_iff:
  "port_range_exceeded cfg \<longleftrightarrow> port_total cfg = 0 \<or> 65536 < port_total cfg"
proof -
  let ?t = "(ucast (MinPort cfg) :: uint64)
       + ((ucast (NumSecondaryPorts cfg) :: uint64) + 2) * (ucast (NumContainers cfg) :: uint64)"
  have t: "unat ?t = port_total cfg" by (simp only: port_total_unat port_total_def)
  show ?thesis
  proof (cases "port_total cfg = 0")
    case True
    with t have "?t = 0" by (simp add: unat_eq_0)
    then have "port_range_exceeded cfg" unfolding port_range_exceeded_def by simp
    with True show ?thesis by simp
  next
    case False
    with t have "1 \<le> ?t" by (simp add: word_le_nat_alt)
    then have "unat (?t - 1) = port_total cfg - 1" using t by (simp add: unat_sub)
    then have "port_range_exceeded cfg \<longleftrightarrow> 65535 < port_total cfg - 1"
      unfolding port_range_exceeded_def by (simp add: word_less_nat_alt)
    with False show ?thesis by auto
  qed
qed

lemma port_bound_violated_iff: "port_bound_violated cfg \<longleftrightarrow> 65536 < port_total cfg"
proof -
  have "int (unat (MinPort cfg))
       + (int (unat (NumSecondaryPorts cfg)) + 2) * int (unat (NumContainers cfg))
       = int (port_total cfg)"
    by (simp add: port_total_def algebra_simps)
  then show ?thesis
    unfolding port_bound_violated_def by linarith
qed

lemma Init_fst:
  "fst (Init r sd n k m cpu mem mk) =
     \<lparr>RegistryHost = r, SaveDir = sd, NumContainers = n, NumSecondaryPorts = k, MinPort = m,
      CPUShares = cpu, MemoryLimit = mem\<rparr>"
  by (simp add: Init_def Let_def split: option.splits)

lemma Init_snd:
  "snd (Init r sd n k m cpu mem mk) =
     (if port_range_exceeded (fst (Init r sd n k m cpu mem mk)) then Some InvalidConfig
      else map_option MkdirAllError mk)"
  by (simp add: Init_def Let_def split: option.splits)

lemma port_no_wrap:
  assumes ok: "\<not> port_bound_violated cfg" and s: "s < NumContainers cfg"
    and k: "k < unat (NumSecondaryPorts cfg) + 2"
  shows "unat (MinPort cfg + NumContainers cfg * of_nat k + s)
           = unat (MinPort cfg) + unat (NumContainers cfg) * k + unat s"
proof -
  let ?N = "unat (NumContainers cfg)"
  from ok have tot: "port_total cfg \<le> 65536"
    by (simp add: port_bound_violated_iff)
  from s have sn: "unat s < ?N" by (simp add: word_less_nat_alt)
  from k have "?N * Suc k \<le> ?N * (unat (NumSecondaryPorts cfg) + 2)"
    by (intro mult_le_mono) simp_all
  with sn tot have bound: "unat (MinPort cfg) + ?N * k + unat s < 65536"
    by (simp add: port_total_def mult.commute)
  from sn have "1 \<le> ?N" by simp
  then have "1 * k \<le> ?N * k" by (rule mult_le_mono1)
  with bound have kb: "k < 65536" by linarith
  then have uk: "unat (of_nat k :: uint16) = k"
    by (simp add: unat_of_nat)
  have "unat (NumContainers cfg * of_nat k) = ?N * unat (of_nat k :: uint16) mod 2 ^ LENGTH(16)"
    by (rule unat_word_ariths(2))
  with bound uk have um: "unat (NumContainers cfg * of_nat k) = ?N * k" by simp
  have "unat (MinPort cfg + NumContainers cfg * of_nat k)
          = (unat (MinPort cfg) + unat (NumContainers cfg * of_nat k)) mod 2 ^ LENGTH(16)"
    by (rule unat_word_ariths(1))
  with bound um have ua: "unat (MinPort cfg + NumContainers cfg * of_nat k) = unat (MinPort cfg) + ?N * k"
    by simp
  have "unat (MinPort cfg + NumContainers cfg * of_nat k + s)
          = (unat (MinPort cfg + NumContainers cfg * of_nat k) + unat s) mod 2 ^ LENGTH(16)"
    by (rule unat_word_ariths(1))
  with bound ua show ?thesis by simp
qed

section \<open>The handlers case by case\<close>

lemma capacity_check_nat:
  "(uint (NumContainers cfg) \<le> int (card (dom (containers s))))
     \<longleftrightarrow> unat (NumContainers cfg) \<le> card (dom (containers s))"
proof -
  have "uint (NumContainers cfg) = int (unat (NumContainers cfg))"
    by simp
  then show ?thesis
    by (simp only: of_nat_le_iff)
qed

lemma reserve_NoFreeContainers:
  "unat (NumContainers cfg) \<le> card (dom (containers s)) \<Longrightarrow>
   reserve cfg s req = Some (s, Inl NoFreeContainers)"
  by (simp add: reserve_def capacity_check_nat)

lemma reserve_IdInUse:
  "\<not> unat (NumContainers cfg) \<le> card (dom (containers s)) \<Longrightarrow>
   reserve_id req \<in> dom (containers s) \<Longrightarrow>
   reserve cfg s req = Some (s, Inl (IdInUse (reserve_id req)))"
  by (simp add: reserve_def capacity_check_nat domIff)

lemma reserve_NotEnoughCPUShares:
  "\<not> unat (NumContainers cfg) \<le> card (dom (containers s)) \<Longrightarrow>
   reserve_id req \<notin> dom (containers s) \<Longrightarrow>
   CPUShares cfg < Manifest_CPUShares (reserve_manifest req) + usedCPUShares s \<Longrightarrow>
   reserve cfg s req =
     Some (s, Inl (NotEnoughCPUShares (Manifest_CPUShares (reserve_manifest req))
                     (CPUShares cfg - usedCPUShares s)))"
  by (simp add: reserve_def capacity_check_nat domIff)

lemma reserve_NotEnoughMemory:
  "\<not> unat (NumContainers cfg) \<le> card (dom (containers s)) \<Longrightarrow>
   reserve_id req \<notin> dom (containers s) \<Longrightarrow>
   \<not> CPUShares cfg < Manifest_CPUShares (reserve_manifest req) + usedCPUShares s \<Longrightarrow>
   MemoryLimit cfg < Manifest_MemoryLimit (reserve_manifest req) + usedMemoryLimit s \<Longrightarrow>
   reserve cfg s req =
     Some (s, Inl (NotEnoughMemory (Manifest_MemoryLimit (reserve_manifest req))
                     (MemoryLimit cfg - usedMemoryLimit s)))"
  by (simp add: reserve_def capacity_check_nat domIff)

lemma reserve_passes:
  "\<not> unat (NumContainers cfg) \<le> card (dom (containers s)) \<Longrightarrow>
   reserve_id req \<notin> dom (containers s) \<Longrightarrow>
   \<not> CPUShares cfg < Manifest_CPUShares (reserve_manifest req) + usedCPUShares s \<Longrightarrow>
   \<not> MemoryLimit cfg < Manifest_MemoryLimit (reserve_manifest req) + usedMemoryLimit s \<Longrightarrow>
   reserve cfg s req =
     (case ports s of
        [] \<Rightarrow> None
      | port # rest \<Rightarrow>
          Some (s\<lparr>containers := (containers s)(reserve_id req \<mapsto>
                     \<lparr>Id = reserve_id req, PrimaryPort = MinPort cfg + port,
                      SSHPort = MinPort cfg + NumContainers cfg + port,
                      SecondaryPorts = map (secondary_port cfg port) [0..<unat (NumSecondaryPorts cfg)],
                      Manifest = reserve_manifest req\<rparr>),
                   ports := rest,
                   usedMemoryLimit := usedMemoryLimit s + Manifest_MemoryLimit (reserve_manifest req),
                   usedCPUShares := usedCPUShares s + Manifest_CPUShares (reserve_manifest req)\<rparr>,
                Inr \<lparr>Id = reserve_id req, PrimaryPort = MinPort cfg + port,
                      SSHPort = MinPort cfg + NumContainers cfg + port,
                      SecondaryPorts = map (secondary_port cfg port) [0..<unat (NumSecondaryPorts cfg)],
                      Manifest = reserve_manifest req\<rparr>))"
  by (simp add: reserve_def capacity_check_nat domIff secondaryPorts_loop_eq Let_def
           split: list.splits)

lemma first_failing_check_cases:
  "first_failing_check cfg s req =
     (if unat (NumContainers cfg) \<le> card (dom (containers s)) then Some NoFreeContainers
      else if reserve_id req \<in> dom (containers s) then Some (IdInUse (reserve_id req))
      else if CPUShares cfg < Manifest_CPUShares (reserve_manifest req) + usedCPUShares s
      then Some (NotEnoughCPUShares (Manifest_CPUShares (reserve_manifest req))
                   (CPUShares cfg - usedCPUShares s))
      else if MemoryLimit cfg < Manifest_MemoryLimit (reserve_manifest req) + usedMemoryLimit s
      then Some (NotEnoughMemory (Manifest_MemoryLimit (reserve_manifest req))
                   (MemoryLimit cfg - usedMemoryLimit s))
      else None)"
  by (simp add: first_failing_check_def checks_def)

lemma reserve_error_iff:
  "reserve cfg s req = Some (s', Inl e) \<longleftrightarrow> s' = s \<and> first_failing_check cfg s req = Some e"
proof -
  consider (cap) "unat (NumContainers cfg) \<le> card (dom (containers s))"
    | (dup) "\<not> unat (NumContainers cfg) \<le> card (dom (containers s))"
            "reserve_id req \<in> dom (containers s)"
    | (cpu) "\<not> unat (NumContainers cfg) \<le> card (dom (containers s))"
            "reserve_id req \<notin> dom (containers s)"
            "CPUShares cfg < Manifest_CPUShares (reserve_manifest req) + usedCPUShares s"
    | (mem) "\<not> unat (NumContainers cfg) \<le> card (dom (containers s))"
            "reserve_id req \<notin> dom (containers s)"
            "\<not> CPUShares cfg < Manifest_CPUShares (reserve_manifest req) + usedCPUShares s"
            "MemoryLimit cfg < Manifest_MemoryLimit (reserve_manifest req) + usedMemoryLimit s"
    | (ok) "\<not> unat (NumContainers cfg) \<le> card (dom (containers s))"
            "reserve_id req \<notin> dom (containers s)"
            "\<not> CPUShares cfg < Manifest_CPUShares (reserve_manifest req) + usedCPUShares s"
            "\<not> MemoryLimit cfg < Manifest_MemoryLimit (reserve_manifest req) + usedMemoryLimit s"
    by blast
  then show ?thesis
  proof cases
    case cap
    then show ?thesis
      by (simp add: reserve_NoFreeContainers first_failing_check_cases) blast
  next
    case dup
    then show ?thesis
      by (simp add: reserve_IdInUse first_failing_check_cases) blast
  next
    case cpu
    then show ?thesis
      by (simp add: reserve_NotEnoughCPUShares first_failing_check_cases) blast
  next
    case mem
    then show ?thesis
      by (simp add: reserve_NotEnoughMemory first_failing_check_cases) blast
  next
    case ok
    then show ?thesis
      by (simp add: reserve_passes first_failing_check_cases split: list.splits)
  qed
qed

lemma first_failing_check_ports:
  "first_failing_check (cfg\<lparr>MinPort := m, NumSecondaryPorts := k\<rparr>) s req
     = first_failing_check cfg s req"
  by (simp add: first_failing_check_cases)

lemma reserve_error_ports:
  "reserve (cfg\<lparr>MinPort := m, NumSecondaryPorts := k\<rparr>) s req = Some (s', Inl e)
     \<longleftrightarrow> reserve cfg s req = Some (s', Inl e)"
  by (simp only: reserve_error_iff first_failing_check_ports)

lemma reserve_Some_Inl:
  "reserve cfg s req = Some (s', Inl e) \<Longrightarrow> s' = s"
  using reserve_NoFreeContainers [of cfg s req] reserve_IdInUse [of cfg s req]
    reserve_NotEnoughCPUShares [of cfg s req] reserve_NotEnoughMemory [of cfg s req]
    reserve_passes [of cfg s req]
  by (cases "ports s") (auto split: list.splits)

lemma reserve_Some_Inr:
  assumes "reserve cfg s req = Some (s', Inr c)"
  obtains port rest where
    "ports s = port # rest"
    "reserve_id req \<notin> dom (containers s)"
    "card (dom (containers s)) < unat (NumContainers cfg)"
    "Manifest_CPUShares (reserve_manifest req) + usedCPUShares s \<le> CPUShares cfg"
    "Manifest_MemoryLimit (reserve_manifest req) + usedMemoryLimit s \<le> MemoryLimit cfg"
    "c = \<lparr>Id = reserve_id req, PrimaryPort = MinPort cfg + port,
          SSHPort = MinPort cfg + NumContainers cfg + port,
          SecondaryPorts = map (secondary_port cfg port) [0..<unat (NumSecondaryPorts cfg)],
          Manifest = reserve_manifest req\<rparr>"
    "s' = s\<lparr>containers := (containers s)(reserve_id req \<mapsto> c), ports := rest,
            usedMemoryLimit := usedMemoryLimit s + Manifest_MemoryLimit (reserve_manifest req),
            usedCPUShares := usedCPUShares s + Manifest_CPUShares (reserve_manifest req)\<rparr>"
proof -
  have cap: "\<not> unat (NumContainers cfg) \<le> card (dom (containers s))"
    using assms reserve_NoFreeContainers [of cfg s req] by auto
  have dup: "reserve_id req \<notin> dom (containers s)"
    using assms cap reserve_IdInUse [of cfg s req] by auto
  have cpu: "\<not> CPUShares cfg < Manifest_CPUShares (reserve_manifest req) + usedCPUShares s"
    using assms cap dup reserve_NotEnoughCPUShares [of cfg s req] by auto
  have mem: "\<not> MemoryLimit cfg < Manifest_MemoryLimit (reserve_manifest req) + usedMemoryLimit s"
    using assms cap dup cpu reserve_NotEnoughMemory [of cfg s req] by auto
  note pass = reserve_passes [OF cap dup cpu mem]
  from assms pass obtain port rest where p: "ports s = port # rest"
    by (cases "ports s") simp_all
  from assms pass p have
    "c = \<lparr>Id = reserve_id req, PrimaryPort = MinPort cfg + port,
          SSHPort = MinPort cfg + NumContainers cfg + port,
          SecondaryPorts = map (secondary_port cfg port) [0..<unat (NumSecondaryPorts cfg)],
          Manifest = reserve_manifest req\<rparr>"
    "s' = s\<lparr>containers := (containers s)(reserve_id req \<mapsto> c), ports := rest,
            usedMemoryLimit := usedMemoryLimit s + Manifest_MemoryLimit (reserve_manifest req),
            usedCPUShares := usedCPUShares s + Manifest_CPUShares (reserve_manifest req)\<rparr>"
    by auto
  with p cap dup cpu mem that [of port rest] show thesis
    by (simp add: not_le not_less)
qed

lemma reserve_keeps_files:
  "reserve cfg s req = Some (s', r) \<Longrightarrow>
   ContainersFile s' = ContainersFile s \<and> PortsFile s' = PortsFile s"
proof (cases r)
  case (Inl e)
  assume "reserve cfg s req = Some (s', r)"
  with Inl have "s' = s"
    using reserve_NoFreeContainers [of cfg s req] reserve_IdInUse [of cfg s req]
      reserve_NotEnoughCPUShares [of cfg s req] reserve_NotEnoughMemory [of cfg s req]
      reserve_passes [of cfg s req]
    by (cases "ports s") (auto split: list.splits)
  then show ?thesis by simp
next
  case (Inr c)
  assume "reserve cfg s req = Some (s', r)"
  with Inr show ?thesis by (auto elim!: reserve_Some_Inr)
qed

lemma teardown_absent:
  "containers s (teardown_id req) = None \<Longrightarrow> teardown cfg s req = (s, False)"
  by (simp add: teardown_def)

lemma teardown_present:
  "containers s (teardown_id req) = Some c \<Longrightarrow>
   teardown cfg s req =
     (s\<lparr>containers := (containers s)(teardown_id req := None),
        ports := ports s @ [PrimaryPort c - MinPort cfg],
        usedMemoryLimit := usedMemoryLimit s - Manifest_MemoryLimit (Manifest c),
        usedCPUShares := usedCPUShares s - Manifest_CPUShares (Manifest c),
        ContainersFile := Some ((containers s)(teardown_id req := None)),
        PortsFile := Some (ports s @ [PrimaryPort c - MinPort cfg])\<rparr>, True)"
  by (simp add: teardown_def save_def Container_teardown_def Let_def)

lemma teardown_saves:
  "containers s (teardown_id req) = Some c \<Longrightarrow>
   ContainersFile (fst (teardown cfg s req)) = Some (containers (fst (teardown cfg s req))) \<and>
   PortsFile (fst (teardown cfg s req)) = Some (ports (fst (teardown cfg s req)))"
  by (simp add: teardown_present)

section \<open>The accounting invariant\<close>

lemma cpu_sum_upd:
  assumes "finite (dom cs)" and "cs k = None"
  shows "cpu_sum (cs(k \<mapsto> c)) = cpu_sum cs + unat (Manifest_CPUShares (Manifest c))"
proof -
  let ?g = "\<lambda>m j. unat (Manifest_CPUShares (Manifest (the (m j))))"
  from assms(2) have notin: "k \<notin> dom cs" by (simp add: domIff)
  have "sum (?g (cs(k \<mapsto> c))) (insert k (dom cs))
          = ?g (cs(k \<mapsto> c)) k + sum (?g (cs(k \<mapsto> c))) (dom cs)"
    using assms(1) notin by (rule sum.insert)
  moreover have "sum (?g (cs(k \<mapsto> c))) (dom cs) = sum (?g cs) (dom cs)"
    using notin by (intro sum.cong refl) auto
  moreover have "cpu_sum (cs(k \<mapsto> c)) = sum (?g (cs(k \<mapsto> c))) (insert k (dom cs))"
    unfolding cpu_sum_def by simp
  moreover have "cpu_sum cs = sum (?g cs) (dom cs)"
    unfolding cpu_sum_def by simp
  ultimately show ?thesis by simp
qed

lemma memory_sum_upd:
  assumes "finite (dom cs)" and "cs k = None"
  shows "memory_sum (cs(k \<mapsto> c)) = memory_sum cs + unat (Manifest_MemoryLimit (Manifest c))"
proof -
  let ?g = "\<lambda>m j. unat (Manifest_MemoryLimit (Manifest (the (m j))))"
  from assms(2) have notin: "k \<notin> dom cs" by (simp add: domIff)
  have "sum (?g (cs(k \<mapsto> c))) (insert k (dom cs))
          = ?g (cs(k \<mapsto> c)) k + sum (?g (cs(k \<mapsto> c))) (dom cs)"
    using assms(1) notin by (rule sum.insert)
  moreover have "sum (?g (cs(k \<mapsto> c))) (dom cs) = sum (?g cs) (dom cs)"
    using notin by (intro sum.cong refl) auto
  moreover have "memory_sum (cs(k \<mapsto> c)) = sum (?g (cs(k \<mapsto> c))) (insert k (dom cs))"
    unfolding memory_sum_def by simp
  moreover have "memory_sum cs = sum (?g cs) (dom cs)"
    unfolding memory_sum_def by simp
  ultimately show ?thesis by simp
qed

lemma cpu_sum_delete:
  assumes "finite (dom cs)" and "cs k = Some c"
  shows "cpu_sum cs = cpu_sum (cs(k := None)) + unat (Manifest_CPUShares (Manifest c))"
proof -
  have fin: "finite (dom (cs(k := None)))" using assms(1) by simp
  have "cs = (cs(k := None))(k \<mapsto> c)" using assms(2) by (simp add: fun_upd_idem)
  then have "cpu_sum cs = cpu_sum ((cs(k := None))(k \<mapsto> c))" by simp
  also have "\<dots> = cpu_sum (cs(k := None)) + unat (Manifest_CPUShares (Manifest c))"
    using fin by (rule cpu_sum_upd) simp
  finally show ?thesis .
qed

lemma memory_sum_delete:
  assumes "finite (dom cs)" and "cs k = Some c"
  shows "memory_sum cs = memory_sum (cs(k := None)) + unat (Manifest_MemoryLimit (Manifest c))"
proof -
  have fin: "finite (dom (cs(k := None)))" using assms(1) by simp
  have "cs = (cs(k := None))(k \<mapsto> c)" using assms(2) by (simp add: fun_upd_idem)
  then have "memory_sum cs = memory_sum ((cs(k := None))(k \<mapsto> c))" by simp
  also have "\<dots> = memory_sum (cs(k := None)) + unat (Manifest_MemoryLimit (Manifest c))"
    using fin by (rule memory_sum_upd) simp
  finally show ?thesis .
qed

lemma unat_add_fits:
  fixes a b c :: uint
  assumes "unat a + unat b < 2 ^ 64" and "\<not> c < a + b"
  shows "unat (a + b) = unat a + unat b" and "unat a + unat b \<le> unat c"
proof -
  from assms(1) have "unat a + unat b < 2 ^ LENGTH(64)" by simp
  then show eq: "unat (a + b) = unat a + unat b"
    by (rule unat_add_lem [THEN iffD1])
  from assms(2) have "a + b \<le> c" by simp
  then have "unat (a + b) \<le> unat c" by (simp add: word_le_nat_alt)
  with eq show "unat a + unat b \<le> unat c" by simp
qed

lemma accounted_reserve:
  assumes acc: "accounted cfg s" and fin: "finite (dom (containers s))"
    and fit: "fits s (ReserveRequest req)"
    and res: "reserve cfg s req = Some (s', r)"
  shows "accounted cfg s'"
proof (cases r)
  case (Inl e)
  with res have "s' = s"
    using reserve_NoFreeContainers [of cfg s req] reserve_IdInUse [of cfg s req]
      reserve_NotEnoughCPUShares [of cfg s req] reserve_NotEnoughMemory [of cfg s req]
      reserve_passes [of cfg s req]
    by (cases "ports s") (auto split: list.splits)
  with acc show ?thesis by simp
next
  case (Inr c)
  with res have "reserve cfg s req = Some (s', Inr c)" by simp
  then obtain port rest where
    absent: "reserve_id req \<notin> dom (containers s)"
    and cpu: "Manifest_CPUShares (reserve_manifest req) + usedCPUShares s \<le> CPUShares cfg"
    and mem: "Manifest_MemoryLimit (reserve_manifest req) + usedMemoryLimit s \<le> MemoryLimit cfg"
    and c: "c = \<lparr>Id = reserve_id req, PrimaryPort = MinPort cfg + port,
          SSHPort = MinPort cfg + NumContainers cfg + port,
          SecondaryPorts = map (secondary_port cfg port) [0..<unat (NumSecondaryPorts cfg)],
          Manifest = reserve_manifest req\<rparr>"
    and s': "s' = s\<lparr>containers := (containers s)(reserve_id req \<mapsto> c), ports := rest,
            usedMemoryLimit := usedMemoryLimit s + Manifest_MemoryLimit (reserve_manifest req),
            usedCPUShares := usedCPUShares s + Manifest_CPUShares (reserve_manifest req)\<rparr>"
    by (rule reserve_Some_Inr)
  from absent have none: "containers s (reserve_id req) = None" by (simp add: domIff)
  from c have man: "Manifest c = reserve_manifest req" by simp
  from fit have f1: "unat (Manifest_CPUShares (reserve_manifest req)) + unat (usedCPUShares s) < 2 ^ 64"
    and f2: "unat (Manifest_MemoryLimit (reserve_manifest req)) + unat (usedMemoryLimit s) < 2 ^ 64"
    by simp_all
  from cpu have ncpu: "\<not> CPUShares cfg < Manifest_CPUShares (reserve_manifest req) + usedCPUShares s"
    by simp
  from mem have nmem: "\<not> MemoryLimit cfg < Manifest_MemoryLimit (reserve_manifest req) + usedMemoryLimit s"
    by simp
  note a = unat_add_fits [OF f1 ncpu] and b = unat_add_fits [OF f2 nmem]
  from acc a b show ?thesis
    by (simp add: accounted_def s' cpu_sum_upd [OF fin none] memory_sum_upd [OF fin none] man
          add.commute)
qed

lemma accounted_teardown:
  assumes acc: "accounted cfg s" and fin: "finite (dom (containers s))"
  shows "accounted cfg (fst (teardown cfg s req))"
proof (cases "containers s (teardown_id req)")
  case None
  with acc show ?thesis by (simp add: teardown_absent)
next
  case (Some c)
  note cd = cpu_sum_delete [OF fin Some] and md = memory_sum_delete [OF fin Some]
  from acc cd have "unat (Manifest_CPUShares (Manifest c)) \<le> unat (usedCPUShares s)"
    by (simp add: accounted_def)
  then have "Manifest_CPUShares (Manifest c) \<le> usedCPUShares s"
    by (simp add: word_le_nat_alt)
  then have u1: "unat (usedCPUShares s - Manifest_CPUShares (Manifest c))
                   = unat (usedCPUShares s) - unat (Manifest_CPUShares (Manifest c))"
    by (rule unat_sub)
  from acc md have "unat (Manifest_MemoryLimit (Manifest c)) \<le> unat (usedMemoryLimit s)"
    by (simp add: accounted_def)
  then have "Manifest_MemoryLimit (Manifest c) \<le> usedMemoryLimit s"
    by (simp add: word_le_nat_alt)
  then have u2: "unat (usedMemoryLimit s - Manifest_MemoryLimit (Manifest c))
                   = unat (usedMemoryLimit s) - unat (Manifest_MemoryLimit (Manifest c))"
    by (rule unat_sub)
  from acc cd md show ?thesis
    by (simp add: accounted_def teardown_present [OF Some] u1 u2)
qed

lemma finite_dom_handle:
  "finite (dom (containers s)) \<Longrightarrow> handle cfg s r = Some s' \<Longrightarrow> finite (dom (containers s'))"
proof (cases r)
  case (ReserveRequest req)
  assume fin: "finite (dom (containers s))" and h: "handle cfg s r = Some s'"
  with ReserveRequest obtain resp where res: "reserve cfg s req = Some (s', resp)"
    by auto
  show ?thesis
  proof (cases resp)
    case (Inl e)
    with res have "s' = s"
      using reserve_NoFreeContainers [of cfg s req] reserve_IdInUse [of cfg s req]
        reserve_NotEnoughCPUShares [of cfg s req] reserve_NotEnoughMemory [of cfg s req]
        reserve_passes [of cfg s req]
      by (cases "ports s") (auto split: list.splits)
    with fin show ?thesis by simp
  next
    case (Inr c)
    with res fin show ?thesis by (auto elim!: reserve_Some_Inr)
  qed
next
  case (TeardownRequest req)
  assume fin: "finite (dom (containers s))" and h: "handle cfg s r = Some s'"
  with TeardownRequest show ?thesis
    by (cases "containers s (teardown_id req)") (auto simp: teardown_absent teardown_present)
qed

lemma accounted_handle:
  "accounted cfg s \<Longrightarrow> finite (dom (containers s)) \<Longrightarrow> fits s r \<Longrightarrow>
   handle cfg s r = Some s' \<Longrightarrow> accounted cfg s'"
proof (cases r)
  case (ReserveRequest req)
  assume "accounted cfg s" "finite (dom (containers s))" "fits s r" "handle cfg s r = Some s'"
  with ReserveRequest show ?thesis
    by (auto intro: accounted_reserve)
next
  case (TeardownRequest req)
  assume "accounted cfg s" "finite (dom (containers s))" "fits s r" "handle cfg s r = Some s'"
  with TeardownRequest show ?thesis
    by (auto intro: accounted_teardown)
qed

lemma accounted_serve:
  "accounted cfg s \<Longrightarrow> finite (dom (containers s)) \<Longrightarrow> run_fits cfg s rs \<Longrightarrow>
   serve cfg s (take n rs) = Some s' \<Longrightarrow> accounted cfg s'"
proof (induction rs arbitrary: s n)
  case Nil
  then show ?case by simp
next
  case (Cons r rs)
  show ?case
  proof (cases n)
    case 0
    with Cons.prems show ?thesis by simp
  next
    case (Suc m)
    with Cons.prems obtain s1 where h: "handle cfg s r = Some s1"
      and rest: "serve cfg s1 (take m rs) = Some s'"
      by (auto split: option.splits)
    from Cons.prems h have "accounted cfg s1" "finite (dom (containers s1))" "run_fits cfg s1 rs"
      by (auto intro: accounted_handle finite_dom_handle)
    then show ?thesis using rest by (rule Cons.IH)
  qed
qed

lemma accounted_loaded:
  assumes "enumerates ks (loaded_map cf)"
    and "cpu_sum (loaded_map cf) \<le> unat (CPUShares cfg)"
    and "memory_sum (loaded_map cf) \<le> unat (MemoryLimit cfg)"
  shows "accounted cfg (containerManager cfg cf pf ks)"
proof -
  have b1: "unat (CPUShares cfg) < 2 ^ 64" and b2: "unat (MemoryLimit cfg) < 2 ^ 64"
    using unsigned_less [of "CPUShares cfg", where 'a = nat]
      unsigned_less [of "MemoryLimit cfg", where 'a = nat] by simp_all
  with assms(2,3) have "cpu_sum (loaded_map cf) mod 2 ^ 64 = cpu_sum (loaded_map cf)"
    "memory_sum (loaded_map cf) mod 2 ^ 64 = memory_sum (loaded_map cf)"
    by simp_all
  with assms show ?thesis
    by (simp add: accounted_def containerManager_fields range_loop_enumerates unat_of_nat_64)
qed

section \<open>The slot invariant\<close>

lemma unat_of_nat_below: "x < unat (n :: uint16) \<Longrightarrow> unat (of_nat x :: uint16) = x"
  by (rule le_unat_uoi [of x n]) simp

lemma slot_indices:
  "distinct (map of_nat [0..<unat (n :: uint16)] :: uint16 list)"
  "set (map of_nat [0..<unat n] :: uint16 list) = {w. w < n}"
proof -
  have inj: "inj_on (of_nat :: nat \<Rightarrow> uint16) {0..<unat n}"
  proof (rule inj_onI)
    fix x y assume x: "x \<in> {0..<unat n}" and y: "y \<in> {0..<unat n}"
      and eq: "(of_nat x :: uint16) = of_nat y"
    from x have "unat (of_nat x :: uint16) = x" by (intro unat_of_nat_below) simp
    moreover from y have "unat (of_nat y :: uint16) = y" by (intro unat_of_nat_below) simp
    ultimately show "x = y" using eq by metis
  qed
  then have "inj_on (of_nat :: nat \<Rightarrow> uint16) (set [0..<unat n])"
    by (simp only: set_upt)
  with distinct_upt [of 0 "unat n"] show "distinct (map of_nat [0..<unat n] :: uint16 list)"
    by (simp only: distinct_map)
  show "set (map of_nat [0..<unat n] :: uint16 list) = {w. w < n}"
  proof (intro set_eqI iffI)
    fix w :: uint16
    assume "w \<in> set (map of_nat [0..<unat n])"
    then obtain x where x: "x < unat n" and w: "w = of_nat x" by auto
    from x have "unat (of_nat x :: uint16) = x" by (rule unat_of_nat_below)
    with x w have "unat w < unat n" by (simp only:)
    then show "w \<in> {w. w < n}" by (simp only: word_less_nat_alt mem_Collect_eq)
  next
    fix w :: uint16
    assume "w \<in> {w. w < n}"
    then have lt: "unat w < unat n" by (simp only: word_less_nat_alt mem_Collect_eq)
    then have mem: "unat w \<in> set [0..<unat n]" by simp
    have "w = of_nat (unat w)" by simp
    then have "w \<in> of_nat ` set [0..<unat n]" using mem by (rule image_eqI)
    then show "w \<in> set (map of_nat [0..<unat n])" by (simp only: set_map)
  qed
qed

lemma card_slot_indices: "card {w :: uint16. w < n} = unat n"
proof -
  have "card (set (map of_nat [0..<unat n] :: uint16 list)) = length (map of_nat [0..<unat n] :: uint16 list)"
    using slot_indices(1) [of n] by (rule distinct_card)
  then show ?thesis
    by (simp only: slot_indices(2) length_map length_upt)
qed

lemma occupied_empty: "occupied cfg Map.empty = {}"
  by (simp add: occupied_def)

lemma occupied_upd:
  "cs k = None \<Longrightarrow> occupied cfg (cs(k \<mapsto> c)) = insert (slot_of cfg c) (occupied cfg cs)"
  by (simp add: occupied_def)

lemma occupied_delete:
  assumes inj: "\<forall>a b ca cb. cs a = Some ca \<longrightarrow> cs b = Some cb \<longrightarrow> slot_of cfg ca = slot_of cfg cb
        \<longrightarrow> a = b"
    and k: "cs k = Some c"
  shows "occupied cfg (cs(k := None)) = occupied cfg cs - {slot_of cfg c}"
proof (intro set_eqI iffI)
  fix w assume "w \<in> occupied cfg (cs(k := None))"
  then obtain j cj where j: "j \<noteq> k" "cs j = Some cj" "w = slot_of cfg cj"
    by (auto simp: occupied_def ran_def split: if_splits)
  with inj k have "w \<noteq> slot_of cfg c" by metis
  with j show "w \<in> occupied cfg cs - {slot_of cfg c}"
    by (auto simp: occupied_def ran_def)
next
  fix w assume "w \<in> occupied cfg cs - {slot_of cfg c}"
  then obtain j cj where j: "cs j = Some cj" "w = slot_of cfg cj" "w \<noteq> slot_of cfg c"
    by (auto simp: occupied_def ran_def)
  with k have "j \<noteq> k" by auto
  with j show "w \<in> occupied cfg (cs(k := None))"
    by (auto simp: occupied_def ran_def)
qed

lemma partition_ok_fresh: "partition_ok cfg Map.empty (map of_nat [0..<unat (NumContainers cfg)])"
  unfolding partition_ok_def
  using slot_indices [of "NumContainers cfg"] by (simp add: occupied_empty)

lemma partition_ok_reserve:
  assumes ok: "partition_ok cfg cs (port # rest)" and k: "cs k = None"
    and slot: "slot_of cfg c = port"
  shows "partition_ok cfg (cs(k \<mapsto> c)) rest"
proof -
  from ok have fin: "finite (dom cs)" and dist: "distinct (port # rest)"
    and inj: "\<forall>a b ca cb. cs a = Some ca \<longrightarrow> cs b = Some cb \<longrightarrow> slot_of cfg ca = slot_of cfg cb
        \<longrightarrow> a = b"
    and disj: "occupied cfg cs \<inter> set (port # rest) = {}"
    and cover: "occupied cfg cs \<union> set (port # rest) = {w. w < NumContainers cfg}"
    by (simp_all add: partition_ok_def)
  from disj have free: "port \<notin> occupied cfg cs" by auto
  have inj': "\<forall>a b ca cb. (cs(k \<mapsto> c)) a = Some ca \<longrightarrow> (cs(k \<mapsto> c)) b = Some cb
        \<longrightarrow> slot_of cfg ca = slot_of cfg cb \<longrightarrow> a = b"
  proof (intro allI impI)
    fix a b ca cb
    assume a: "(cs(k \<mapsto> c)) a = Some ca" and b: "(cs(k \<mapsto> c)) b = Some cb"
      and eq: "slot_of cfg ca = slot_of cfg cb"
    show "a = b"
    proof (cases "a = k"; cases "b = k")
      assume "a = k" "b = k" then show ?thesis by simp
    next
      assume "a = k" "b \<noteq> k"
      with a b eq slot have "cs b = Some cb" "slot_of cfg cb = port" by auto
      then have "port \<in> occupied cfg cs" by (auto simp: occupied_def ran_def)
      with free show ?thesis by simp
    next
      assume "a \<noteq> k" "b = k"
      with a b eq slot have "cs a = Some ca" "slot_of cfg ca = port" by auto
      then have "port \<in> occupied cfg cs" by (auto simp: occupied_def ran_def)
      with free show ?thesis by simp
    next
      assume "a \<noteq> k" "b \<noteq> k"
      with a b have "cs a = Some ca" "cs b = Some cb" by simp_all
      with eq inj show ?thesis by blast
    qed
  qed
  from dist disj cover show ?thesis
    unfolding partition_ok_def
    by (auto simp: occupied_upd [of cs k, OF k] slot fin inj' simp del: fun_upd_apply)
qed

lemma partition_ok_teardown:
  assumes ok: "partition_ok cfg cs ps" and k: "cs k = Some c"
  shows "partition_ok cfg (cs(k := None)) (ps @ [slot_of cfg c])"
proof -
  from ok have fin: "finite (dom cs)" and dist: "distinct ps"
    and inj: "\<forall>a b ca cb. cs a = Some ca \<longrightarrow> cs b = Some cb \<longrightarrow> slot_of cfg ca = slot_of cfg cb
        \<longrightarrow> a = b"
    and disj: "occupied cfg cs \<inter> set ps = {}"
    and cover: "occupied cfg cs \<union> set ps = {w. w < NumContainers cfg}"
    by (simp_all add: partition_ok_def)
  from k have occ: "slot_of cfg c \<in> occupied cfg cs"
    by (auto simp: occupied_def ran_def)
  with disj have notfree: "slot_of cfg c \<notin> set ps" by auto
  have inj': "\<forall>a b ca cb. (cs(k := None)) a = Some ca \<longrightarrow> (cs(k := None)) b = Some cb
        \<longrightarrow> slot_of cfg ca = slot_of cfg cb \<longrightarrow> a = b"
    using inj by (simp (no_asm_use) split: if_splits) blast
  from dist disj cover occ notfree show ?thesis
    unfolding partition_ok_def
    by (auto simp: occupied_delete [of cs cfg k c, OF inj k] fin inj' simp del: fun_upd_apply)
qed

lemma partition_ok_card:
  assumes "partition_ok cfg cs ps"
  shows "card (occupied cfg cs) = card (dom cs)"
    and "card (dom cs) + length ps = unat (NumContainers cfg)"
proof -
  from assms have fin: "finite (dom cs)" and dist: "distinct ps"
    and inj: "\<forall>a b ca cb. cs a = Some ca \<longrightarrow> cs b = Some cb \<longrightarrow> slot_of cfg ca = slot_of cfg cb
        \<longrightarrow> a = b"
    and disj: "occupied cfg cs \<inter> set ps = {}"
    and cover: "occupied cfg cs \<union> set ps = {w. w < NumContainers cfg}"
    by (simp_all add: partition_ok_def)
  let ?f = "\<lambda>k. slot_of cfg (the (cs k))"
  have img: "occupied cfg cs = ?f ` dom cs"
    by (force simp: occupied_def ran_def image_iff dom_def)
  have "inj_on ?f (dom cs)"
  proof (rule inj_onI)
    fix a b assume "a \<in> dom cs" "b \<in> dom cs" "?f a = ?f b"
    then obtain ca cb where "cs a = Some ca" "cs b = Some cb" "slot_of cfg ca = slot_of cfg cb"
      by auto
    with inj show "a = b" by blast
  qed
  then have "card (?f ` dom cs) = card (dom cs)" by (rule card_image)
  with img show occ: "card (occupied cfg cs) = card (dom cs)" by simp
  from fin img have "finite (occupied cfg cs)" by simp
  then have "card (occupied cfg cs \<union> set ps) = card (occupied cfg cs) + card (set ps)"
    using disj by (intro card_Un_disjoint) simp_all
  with occ dist cover show "card (dom cs) + length ps = unat (NumContainers cfg)"
    by (simp add: distinct_card card_slot_indices)
qed

lemma all_derived_upd:
  assumes "all_derived cfg cs" and "cs k = None" and "ports_derived cfg c"
  shows "all_derived cfg (cs(k \<mapsto> c))"
  using assms by (auto simp: all_derived_def)

lemma all_derived_delete:
  assumes "all_derived cfg cs"
  shows "all_derived cfg (cs(k := None))"
  using assms by (auto simp: all_derived_def ran_def split: if_splits)

lemma loaded_state:
  "containers (containerManager cfg cf pf ks) = loaded_map cf"
  "ports (containerManager cfg cf pf ks) = loaded_pool cfg pf"
  by (simp_all add: containerManager_fields loaded_pool_def)

lemma partition_inv_start:
  assumes "partition_ok cfg (containers (containerManager cfg cf pf ks))
             (ports (containerManager cfg cf pf ks))"
  shows "partition_inv cfg (containerManager cfg cf pf ks)"
  using assms by (simp add: partition_inv_def loaded_state containerManager_fields(3,4))

lemma derived_inv_start:
  assumes "all_derived cfg (containers (containerManager cfg cf pf ks))"
  shows "derived_inv cfg (containerManager cfg cf pf ks)"
  using assms by (simp add: derived_inv_def loaded_state containerManager_fields(3))

lemma reachable_partition:
  assumes "partition_inv cfg s0" and "reachable cfg s0 s"
  shows "partition_inv cfg s"
  using assms(2)
proof (induction rule: reachable.induct)
  case started
  from assms(1) show ?case .
next
  case (reserved s req s' resp)
  show ?case
  proof (cases resp)
    case (Inl e)
    with reserved.hyps(2) have "s' = s" by (auto dest: reserve_Some_Inl)
    with reserved.IH show ?thesis by simp
  next
    case (Inr c)
    with reserved.hyps(2) have "reserve cfg s req = Some (s', Inr c)" by simp
    then obtain port rest where p: "ports s = port # rest"
      and absent: "reserve_id req \<notin> dom (containers s)"
      and c: "c = \<lparr>Id = reserve_id req, PrimaryPort = MinPort cfg + port,
          SSHPort = MinPort cfg + NumContainers cfg + port,
          SecondaryPorts = map (secondary_port cfg port) [0..<unat (NumSecondaryPorts cfg)],
          Manifest = reserve_manifest req\<rparr>"
      and s': "s' = s\<lparr>containers := (containers s)(reserve_id req \<mapsto> c), ports := rest,
            usedMemoryLimit := usedMemoryLimit s + Manifest_MemoryLimit (reserve_manifest req),
            usedCPUShares := usedCPUShares s + Manifest_CPUShares (reserve_manifest req)\<rparr>"
      by (rule reserve_Some_Inr)
    from absent have none: "containers s (reserve_id req) = None" by (simp add: domIff)
    from c have slot: "slot_of cfg c = port" by (simp add: slot_of_def)
    from reserved.IH p have "partition_ok cfg (containers s) (port # rest)"
      by (simp add: partition_inv_def)
    then have "partition_ok cfg ((containers s)(reserve_id req \<mapsto> c)) rest"
      using none slot by (rule partition_ok_reserve)
    moreover have "containers s' = (containers s)(reserve_id req \<mapsto> c)" "ports s' = rest"
      "ContainersFile s' = ContainersFile s" "PortsFile s' = PortsFile s"
      by (simp_all add: s')
    moreover from reserved.IH
    have "partition_ok cfg (loaded_map (ContainersFile s)) (loaded_pool cfg (PortsFile s))"
      by (simp add: partition_inv_def)
    ultimately show ?thesis
      by (simp only: partition_inv_def simp_thms)
  qed
next
  case (torn_down s treq s' ok)
  show ?case
  proof (cases "containers s (teardown_id treq)")
    case None
    with torn_down.hyps(2) have "s' = s" by (simp add: teardown_absent)
    with torn_down.IH show ?thesis by simp
  next
    case (Some c)
    from torn_down.IH have "partition_ok cfg (containers s) (ports s)"
      by (simp add: partition_inv_def)
    then have "partition_ok cfg ((containers s)(teardown_id treq := None)) (ports s @ [slot_of cfg c])"
      using Some by (rule partition_ok_teardown)
    moreover from torn_down.hyps(2) have "containers s' = (containers s)(teardown_id treq := None)"
      "ports s' = ports s @ [slot_of cfg c]"
      "ContainersFile s' = Some ((containers s)(teardown_id treq := None))"
      "PortsFile s' = Some (ports s @ [slot_of cfg c])"
      by (auto simp: teardown_present [OF Some] slot_of_def)
    ultimately show ?thesis
      by (simp only: partition_inv_def loaded_map_def loaded_pool_def option.case simp_thms)
  qed
next
  case (restarted s ks)
  then have "partition_ok cfg (loaded_map (ContainersFile s)) (loaded_pool cfg (PortsFile s))"
    by (simp add: partition_inv_def)
  then show ?case
    by (simp add: partition_inv_def loaded_state containerManager_fields(3,4))
qed

lemma reachable_derived:
  assumes "derived_inv cfg s0" and "reachable cfg s0 s"
  shows "derived_inv cfg s"
  using assms(2)
proof (induction rule: reachable.induct)
  case started
  from assms(1) show ?case .
next
  case (reserved s req s' resp)
  show ?case
  proof (cases resp)
    case (Inl e)
    with reserved.hyps(2) have "s' = s" by (auto dest: reserve_Some_Inl)
    with reserved.IH show ?thesis by simp
  next
    case (Inr c)
    with reserved.hyps(2) have "reserve cfg s req = Some (s', Inr c)" by simp
    then obtain port rest where absent: "reserve_id req \<notin> dom (containers s)"
      and c: "c = \<lparr>Id = reserve_id req, PrimaryPort = MinPort cfg + port,
          SSHPort = MinPort cfg + NumContainers cfg + port,
          SecondaryPorts = map (secondary_port cfg port) [0..<unat (NumSecondaryPorts cfg)],
          Manifest = reserve_manifest req\<rparr>"
      and s': "s' = s\<lparr>containers := (containers s)(reserve_id req \<mapsto> c), ports := rest,
            usedMemoryLimit := usedMemoryLimit s + Manifest_MemoryLimit (reserve_manifest req),
            usedCPUShares := usedCPUShares s + Manifest_CPUShares (reserve_manifest req)\<rparr>"
      by (rule reserve_Some_Inr)
    from absent have none: "containers s (reserve_id req) = None" by (simp add: domIff)
    from c have slot: "slot_of cfg c = port" by (simp add: slot_of_def)
    have der: "ports_derived cfg c"
      by (simp add: ports_derived_def slot) (simp add: c)
    from reserved.IH have "all_derived cfg (containers s)"
      by (simp add: derived_inv_def)
    then have "all_derived cfg ((containers s)(reserve_id req \<mapsto> c))"
      using none der by (rule all_derived_upd)
    moreover have "containers s' = (containers s)(reserve_id req \<mapsto> c)"
      "ContainersFile s' = ContainersFile s"
      by (simp_all add: s')
    moreover from reserved.IH have "all_derived cfg (loaded_map (ContainersFile s))"
      by (simp add: derived_inv_def)
    ultimately show ?thesis
      by (simp only: derived_inv_def simp_thms)
  qed
next
  case (torn_down s treq s' ok)
  show ?case
  proof (cases "containers s (teardown_id treq)")
    case None
    with torn_down.hyps(2) have "s' = s" by (simp add: teardown_absent)
    with torn_down.IH show ?thesis by simp
  next
    case (Some c)
    from torn_down.IH have "all_derived cfg (containers s)"
      by (simp add: derived_inv_def)
    then have "all_derived cfg ((containers s)(teardown_id treq := None))"
      by (rule all_derived_delete)
    moreover from torn_down.hyps(2) have "containers s' = (containers s)(teardown_id treq := None)"
      "ContainersFile s' = Some ((containers s)(teardown_id treq := None))"
      by (auto simp: teardown_present [OF Some])
    ultimately show ?thesis
      by (simp only: derived_inv_def loaded_map_def option.case simp_thms)
  qed
next
  case (restarted s ks)
  then have "all_derived cfg (loaded_map (ContainersFile s))"
    by (simp add: derived_inv_def)
  then show ?case
    by (simp add: derived_inv_def loaded_state containerManager_fields(3))
qed

lemma container_ports_band:
  assumes "ports_derived cfg c" and "p \<in> container_ports c"
  shows "\<exists>k < unat (NumSecondaryPorts cfg) + 2.
           p = MinPort cfg + NumContainers cfg * of_nat k + slot_of cfg c"
proof -
  from assms(2) consider (primary) "p = PrimaryPort c" | (ssh) "p = SSHPort c"
    | (secondary) "p \<in> set (SecondaryPorts c)"
    by (auto simp: container_ports_def)
  then show ?thesis
  proof cases
    case primary
    then have "p = MinPort cfg + NumContainers cfg * of_nat 0 + slot_of cfg c"
      by (simp add: slot_of_def)
    then show ?thesis by (intro exI [of _ 0]) simp
  next
    case ssh
    with assms(1) have "p = MinPort cfg + NumContainers cfg * of_nat 1 + slot_of cfg c"
      by (simp add: ports_derived_def)
    then show ?thesis by (intro exI [of _ 1]) simp
  next
    case secondary
    with assms(1) obtain i where i: "i < unat (NumSecondaryPorts cfg)"
      and p: "p = secondary_port cfg (slot_of cfg c) i"
      by (auto simp: ports_derived_def)
    from p have "p = MinPort cfg + NumContainers cfg * of_nat (i + 2) + slot_of cfg c"
      by (simp add: secondary_port_def add.commute)
    with i show ?thesis by (intro exI [of _ "i + 2"]) simp
  qed
qed

lemma band_slot_unique:
  fixes n k k' a b :: nat
  assumes "a < n" "b < n" "n * k + a = n * k' + b"
  shows "a = b"
proof -
  from assms(1) have "(n * k + a) mod n = a" by simp
  moreover from assms(2) have "(n * k' + b) mod n = b" by simp
  ultimately show ?thesis using assms(3) by simp
qed

section \<open>The examples evaluated\<close>

lemma example_cfg_fields:
  "NumContainers example_cfg = 4" "NumSecondaryPorts example_cfg = 2" "MinPort example_cfg = 1000"
  "CPUShares example_cfg = 10" "MemoryLimit example_cfg = 1024"
  "NumContainers two_slot_cfg = 2" "NumSecondaryPorts two_slot_cfg = 2" "MinPort two_slot_cfg = 1000"
  "CPUShares two_slot_cfg = 10" "MemoryLimit two_slot_cfg = 1024"
  by (simp_all add: example_cfg_def two_slot_cfg_def)

lemma upt_2: "[0..<2] = [0, 1]"
  by (simp add: upt_rec)

lemma upt_4: "[0..<4] = [0, 1, 2, 3]"
  by (simp add: upt_rec)

lemma reserve_example:
  "reserve example_cfg ((fresh_state example_cfg)\<lparr>ports := p # rest\<rparr>) small_req =
     Some ((fresh_state example_cfg)
             \<lparr>containers := [''c'' \<mapsto>
                 \<lparr>Id = ''c'', PrimaryPort = 1000 + p, SSHPort = 1004 + p,
                  SecondaryPorts = [1008 + p, 1012 + p],
                  Manifest = \<lparr>Manifest_CPUShares = 1, Manifest_MemoryLimit = 64\<rparr>\<rparr>],
               ports := rest, usedMemoryLimit := 64, usedCPUShares := 1\<rparr>,
           Inr \<lparr>Id = ''c'', PrimaryPort = 1000 + p, SSHPort = 1004 + p,
                  SecondaryPorts = [1008 + p, 1012 + p],
                  Manifest = \<lparr>Manifest_CPUShares = 1, Manifest_MemoryLimit = 64\<rparr>\<rparr>)"
proof -
  let ?s = "(fresh_state example_cfg)\<lparr>ports := p # rest\<rparr>"
  have "reserve example_cfg ?s small_req =
     (case ports ?s of
        [] \<Rightarrow> None
      | port # rest \<Rightarrow>
          Some (?s\<lparr>containers :=
                     (containers ?s)(reserve_id small_req \<mapsto>
                     \<lparr>Id = reserve_id small_req, PrimaryPort = MinPort example_cfg + port,
                      SSHPort = MinPort example_cfg + NumContainers example_cfg + port,
                      SecondaryPorts = map (secondary_port example_cfg port)
                        [0..<unat (NumSecondaryPorts example_cfg)],
                      Manifest = reserve_manifest small_req\<rparr>),
                   ports := rest,
                   usedMemoryLimit := usedMemoryLimit ?s
                      + Manifest_MemoryLimit (reserve_manifest small_req),
                   usedCPUShares := usedCPUShares ?s
                      + Manifest_CPUShares (reserve_manifest small_req)\<rparr>,
                Inr \<lparr>Id = reserve_id small_req, PrimaryPort = MinPort example_cfg + port,
                      SSHPort = MinPort example_cfg + NumContainers example_cfg + port,
                      SecondaryPorts = map (secondary_port example_cfg port)
                        [0..<unat (NumSecondaryPorts example_cfg)],
                      Manifest = reserve_manifest small_req\<rparr>))"
    by (rule reserve_passes)
      (simp_all add: fresh_state_eq example_cfg_fields small_req_def)
  then show ?thesis
    by (simp add: fresh_state_eq example_cfg_fields small_req_def upt_2 secondary_port_def)
qed

lemma fresh_state_example: "fresh_state example_cfg = (fresh_state example_cfg)\<lparr>ports := [0, 1, 2, 3]\<rparr>"
  by (simp add: fresh_state_eq example_cfg_fields upt_4)

lemma port_range_example: "\<not> port_bound_violated example_cfg"
  by (simp add: port_bound_violated_iff port_total_def example_cfg_fields)

lemma reserve_slot0:
  "reserve example_cfg (fresh_state example_cfg) small_req
     = Some ((fresh_state example_cfg)\<lparr>containers := [''c'' \<mapsto> slot0_container],
               ports := [1, 2, 3], usedMemoryLimit := 64, usedCPUShares := 1\<rparr>,
             Inr slot0_container)"
  using reserve_example [of 0 "[1, 2, 3]"] fresh_state_example
  by (simp add: slot0_container_def)

lemma reserve_wrapped:
  "map_option fst
     (reserve example_cfg
        ((fresh_state example_cfg)\<lparr>containers := [''c'' \<mapsto> slot0_container],
               ports := [1, 2, 3], usedMemoryLimit := 64, usedCPUShares := 1\<rparr>) huge_req)
     = Some wrapped_state"
proof -
  let ?s1 = "(fresh_state example_cfg)\<lparr>containers := [''c'' \<mapsto> slot0_container],
                    ports := [1, 2, 3], usedMemoryLimit := 64, usedCPUShares := 1\<rparr>"
  have "reserve example_cfg ?s1 huge_req =
     (case ports ?s1 of
        [] \<Rightarrow> None
      | port # rest \<Rightarrow>
          Some (?s1\<lparr>containers :=
                     (containers ?s1)(reserve_id huge_req \<mapsto>
                     \<lparr>Id = reserve_id huge_req, PrimaryPort = MinPort example_cfg + port,
                      SSHPort = MinPort example_cfg + NumContainers example_cfg + port,
                      SecondaryPorts = map (secondary_port example_cfg port)
                        [0..<unat (NumSecondaryPorts example_cfg)],
                      Manifest = reserve_manifest huge_req\<rparr>),
                   ports := rest,
                   usedMemoryLimit := usedMemoryLimit ?s1
                      + Manifest_MemoryLimit (reserve_manifest huge_req),
                   usedCPUShares := usedCPUShares ?s1
                      + Manifest_CPUShares (reserve_manifest huge_req)\<rparr>,
                Inr \<lparr>Id = reserve_id huge_req, PrimaryPort = MinPort example_cfg + port,
                      SSHPort = MinPort example_cfg + NumContainers example_cfg + port,
                      SecondaryPorts = map (secondary_port example_cfg port)
                        [0..<unat (NumSecondaryPorts example_cfg)],
                      Manifest = reserve_manifest huge_req\<rparr>))"
    by (rule reserve_passes)
      (simp_all add: fresh_state_eq example_cfg_fields huge_req_def)
  then show ?thesis
    by (simp add: fresh_state_eq example_cfg_fields huge_req_def upt_2 secondary_port_def
          wrapped_state_def)
qed

lemma wrapped_run:
  "serve example_cfg (fresh_state example_cfg) [ReserveRequest small_req, ReserveRequest huge_req]
      = Some wrapped_state"
  using reserve_slot0 reserve_wrapped by auto

lemma reachable_wrapped: "reachable example_cfg (fresh_state example_cfg) wrapped_state"
proof -
  have "reachable example_cfg (fresh_state example_cfg) (fresh_state example_cfg)"
    by (rule reachable.started)
  then have r1: "reachable example_cfg (fresh_state example_cfg)
      ((fresh_state example_cfg)\<lparr>containers := [''c'' \<mapsto> slot0_container],
               ports := [1, 2, 3], usedMemoryLimit := 64, usedCPUShares := 1\<rparr>)"
    using reserve_slot0 by (rule reachable.reserved)
  from reserve_wrapped obtain resp where
    "reserve example_cfg
        ((fresh_state example_cfg)\<lparr>containers := [''c'' \<mapsto> slot0_container],
               ports := [1, 2, 3], usedMemoryLimit := 64, usedCPUShares := 1\<rparr>) huge_req
      = Some (wrapped_state, resp)"
    by auto
  with r1 show ?thesis by (rule reachable.reserved)
qed

lemma half_loaded_eq:
  "half_loaded =
     \<lparr>containers = [''a'' \<mapsto> held_container], ports = [0, 1, 2, 3],
      usedMemoryLimit = 64, usedCPUShares = 1,
      ContainersFile = Some [''a'' \<mapsto> held_container], PortsFile = None\<rparr>"
  by (simp add: half_loaded_def containerManager_def ports_loop_eq held_container_def)
    (simp add: example_cfg_fields upt_4 Let_def)

lemma pool_only_eq:
  "pool_only =
     \<lparr>containers = Map.empty, ports = [2, 3], usedMemoryLimit = 0, usedCPUShares = 0,
      ContainersFile = None, PortsFile = Some [2, 3]\<rparr>"
  by (simp add: pool_only_def containerManager_def)

lemma reserve_half_loaded:
  "reserve example_cfg half_loaded small_req = Some (double_booked, Inr slot0_container)"
proof -
  have "reserve example_cfg half_loaded small_req =
     (case ports half_loaded of
        [] \<Rightarrow> None
      | port # rest \<Rightarrow>
          Some (half_loaded\<lparr>containers :=
                     (containers half_loaded)(reserve_id small_req \<mapsto>
                     \<lparr>Id = reserve_id small_req, PrimaryPort = MinPort example_cfg + port,
                      SSHPort = MinPort example_cfg + NumContainers example_cfg + port,
                      SecondaryPorts = map (secondary_port example_cfg port)
                        [0..<unat (NumSecondaryPorts example_cfg)],
                      Manifest = reserve_manifest small_req\<rparr>),
                   ports := rest,
                   usedMemoryLimit := usedMemoryLimit half_loaded
                      + Manifest_MemoryLimit (reserve_manifest small_req),
                   usedCPUShares := usedCPUShares half_loaded
                      + Manifest_CPUShares (reserve_manifest small_req)\<rparr>,
                Inr \<lparr>Id = reserve_id small_req, PrimaryPort = MinPort example_cfg + port,
                      SSHPort = MinPort example_cfg + NumContainers example_cfg + port,
                      SecondaryPorts = map (secondary_port example_cfg port)
                        [0..<unat (NumSecondaryPorts example_cfg)],
                      Manifest = reserve_manifest small_req\<rparr>))"
    by (rule reserve_passes)
      (simp_all add: half_loaded_eq example_cfg_fields small_req_def)
  then show ?thesis
    by (simp add: half_loaded_eq example_cfg_fields small_req_def upt_2 secondary_port_def
          double_booked_def slot0_container_def fun_upd_twist)
qed

lemma slots_below_4: "{w :: uint16. w < 4} = {0, 1, 2, 3}"
  using slot_indices(2) [of 4] by (simp add: upt_4)

lemma renumbered_start_fields:
  "containers renumbered_start = [''a'' \<mapsto> stale_container, ''d'' \<mapsto> slot1_container]"
  "ports renumbered_start = [2, 3]"
  by (simp_all add: renumbered_start_def containerManager_fields loaded_map_def)

lemma renumbered_partition:
  "partition_ok example_cfg (containers renumbered_start) (ports renumbered_start)"
proof -
  have occ: "occupied example_cfg [''a'' \<mapsto> stale_container, ''d'' \<mapsto> slot1_container] = {0, 1}"
    by (auto simp: occupied_def slot_of_def stale_container_def slot1_container_def
          example_cfg_fields)
  have slots: "slot_of example_cfg stale_container = 0" "slot_of example_cfg slot1_container = 1"
    by (simp_all add: slot_of_def stale_container_def slot1_container_def example_cfg_fields)
  have inj: "\<forall>a b ca cb. [''a'' \<mapsto> stale_container, ''d'' \<mapsto> slot1_container] a = Some ca \<longrightarrow>
      [''a'' \<mapsto> stale_container, ''d'' \<mapsto> slot1_container] b = Some cb \<longrightarrow>
      slot_of example_cfg ca = slot_of example_cfg cb \<longrightarrow> a = b"
    using slots by (auto split: if_splits)
  show ?thesis
    unfolding partition_ok_def renumbered_start_fields
    using inj by (auto simp: occ example_cfg_fields slots_below_4 simp del: fun_upd_apply)
qed

section \<open>The properties\<close>

subsection \<open>Failed reservations\<close>

text \<open>
  Claim C5. \<open>reserve\<close> evaluates its checks in the fixed order slot capacity, ID
  uniqueness, CPU shares, memory. It answers with an error exactly when one of the
  checks fails, the error is the one of the first failing check, and the state
  (container map, free pool, both counters) is then the state before the request.
\<close>

theorem reserve_checks_in_order:
  "reserve cfg s req = Some (s', Inl e) \<longleftrightarrow> s' = s \<and> first_failing_check cfg s req = Some e"
  by (rule reserve_error_iff)

theorem reserve_checks_in_order_witness:
  "reserve two_slot_cfg full_state greedy_req = Some (full_state, Inl NoFreeContainers) \<and>
   reserve example_cfg full_state greedy_req = Some (full_state, Inl (IdInUse ''a'')) \<and>
   reserve example_cfg full_state (greedy_req\<lparr>reserve_id := ''c''\<rparr>)
     = Some (full_state, Inl (NotEnoughCPUShares 5 3)) \<and>
   reserve (example_cfg\<lparr>CPUShares := 12\<rparr>) full_state (greedy_req\<lparr>reserve_id := ''c''\<rparr>)
     = Some (full_state, Inl (NotEnoughMemory 2048 896))"
  using reserve_checks_in_order [of two_slot_cfg full_state greedy_req full_state NoFreeContainers]
    reserve_checks_in_order [of example_cfg full_state greedy_req full_state "IdInUse ''a''"]
    reserve_checks_in_order [of example_cfg full_state "greedy_req\<lparr>reserve_id := ''c''\<rparr>"
      full_state "NotEnoughCPUShares 5 3"]
    reserve_checks_in_order [of "example_cfg\<lparr>CPUShares := 12\<rparr>" full_state
      "greedy_req\<lparr>reserve_id := ''c''\<rparr>" full_state "NotEnoughMemory 2048 896"]
  by (simp add: first_failing_check_def checks_def two_slot_cfg_def example_cfg_def
        full_state_def greedy_req_def)

subsection \<open>Teardown\<close>

text \<open>
  Claim C6. \<open>teardown\<close> answers false exactly when the id is not an active container,
  and then leaves the state as it is. For an active id it answers true, and the state
  at the time of the answer has the container's slot (primary port minus \<open>MinPort\<close>)
  appended to the free pool, both counters decremented by the manifest values of the
  container, and the container removed from the map.
\<close>

theorem teardown_outcome:
  "(\<not> snd (teardown cfg s req) \<longleftrightarrow> teardown_id req \<notin> dom (containers s)) \<and>
   (teardown_id req \<notin> dom (containers s) \<longrightarrow> teardown cfg s req = (s, False)) \<and>
   (\<forall>c. containers s (teardown_id req) = Some c \<longrightarrow>
      snd (teardown cfg s req) \<and>
      containers (fst (teardown cfg s req)) = (containers s)(teardown_id req := None) \<and>
      ports (fst (teardown cfg s req)) = ports s @ [PrimaryPort c - MinPort cfg] \<and>
      usedCPUShares (fst (teardown cfg s req))
        = usedCPUShares s - Manifest_CPUShares (Manifest c) \<and>
      usedMemoryLimit (fst (teardown cfg s req))
        = usedMemoryLimit s - Manifest_MemoryLimit (Manifest c))"
proof (cases "containers s (teardown_id req)")
  case None
  then show ?thesis by (simp add: teardown_absent domIff)
next
  case (Some c)
  then show ?thesis by (simp add: teardown_present domIff)
qed

theorem teardown_outcome_witness:
  "teardown two_slot_cfg full_state \<lparr>teardown_id = ''zz''\<rparr> = (full_state, False) \<and>
   snd (teardown two_slot_cfg full_state \<lparr>teardown_id = ''b''\<rparr>) \<and>
   containers (fst (teardown two_slot_cfg full_state \<lparr>teardown_id = ''b''\<rparr>))
     = [''a'' \<mapsto> container_a] \<and>
   ports (fst (teardown two_slot_cfg full_state \<lparr>teardown_id = ''b''\<rparr>)) = [1] \<and>
   usedCPUShares (fst (teardown two_slot_cfg full_state \<lparr>teardown_id = ''b''\<rparr>)) = 6 \<and>
   usedMemoryLimit (fst (teardown two_slot_cfg full_state \<lparr>teardown_id = ''b''\<rparr>)) = 64"
proof -
  have absent: "teardown_id \<lparr>teardown_id = ''zz''\<rparr> \<notin> dom (containers full_state)"
    by (simp add: full_state_def)
  have present: "containers full_state (teardown_id \<lparr>teardown_id = ''b''\<rparr>) = Some container_b"
    by (simp add: full_state_def)
  have upd: "(containers full_state)(''b'' := None) = [''a'' \<mapsto> container_a]"
    by (simp add: full_state_def)
  show ?thesis
    using teardown_outcome [of two_slot_cfg full_state "\<lparr>teardown_id = ''zz''\<rparr>"] absent
      teardown_outcome [of two_slot_cfg full_state "\<lparr>teardown_id = ''b''\<rparr>"] present upd
    by (simp add: full_state_def container_b_def two_slot_cfg_def example_cfg_def)
qed

subsection \<open>Start of the actor\<close>

text \<open>
  Claim C8. At the start of \<open>containerManager\<close>: when no container snapshot loads the
  container map is empty (otherwise it is the loaded map); when no port snapshot loads
  the free pool is the list of the slot indices \<open>0 .. NumContainers - 1\<close> (otherwise it
  is the loaded list); and in every case the two counters are the sums of the manifest
  fields over the container map (in \<open>uint\<close> arithmetic, whatever order the range loop
  takes), no persisted counter being read.
\<close>

theorem startup_state:
  "(cf = None \<longrightarrow> containers (containerManager cfg cf pf ks) = Map.empty) \<and>
   (\<forall>m. cf = Some m \<longrightarrow> containers (containerManager cfg cf pf ks) = m) \<and>
   (pf = None \<longrightarrow>
      ports (containerManager cfg cf pf ks) = map of_nat [0..<unat (NumContainers cfg)]) \<and>
   (\<forall>p. pf = Some p \<longrightarrow> ports (containerManager cfg cf pf ks) = p) \<and>
   (enumerates ks (containers (containerManager cfg cf pf ks)) \<longrightarrow>
      unat (usedCPUShares (containerManager cfg cf pf ks))
        = cpu_sum (containers (containerManager cfg cf pf ks)) mod 2 ^ 64 \<and>
      unat (usedMemoryLimit (containerManager cfg cf pf ks))
        = memory_sum (containers (containerManager cfg cf pf ks)) mod 2 ^ 64)"
  by (simp add: containerManager_fields range_loop_enumerates unat_of_nat_64)
    (simp add: loaded_map_def)

theorem startup_state_witness:
  "containers (containerManager two_slot_cfg None None []) = Map.empty \<and>
   ports (containerManager two_slot_cfg None None []) = [0, 1] \<and>
   usedCPUShares (containerManager two_slot_cfg None None []) = 0 \<and>
   usedCPUShares (containerManager two_slot_cfg
       (Some [''a'' \<mapsto> container_a, ''b'' \<mapsto> container_b]) (Some []) [''b'', ''a'']) = 7 \<and>
   usedMemoryLimit (containerManager two_slot_cfg
       (Some [''a'' \<mapsto> container_a, ''b'' \<mapsto> container_b]) (Some []) [''b'', ''a'']) = 128"
proof -
  let ?m = "[''a'' \<mapsto> container_a, ''b'' \<mapsto> container_b]"
  have e0: "enumerates [] (containers (containerManager two_slot_cfg None None []))"
    by (simp add: enumerates_def containerManager_fields loaded_map_def)
  have e1: "enumerates [''b'', ''a'']
              (containers (containerManager two_slot_cfg (Some ?m) (Some []) [''b'', ''a'']))"
    by (auto simp: enumerates_def containerManager_fields loaded_map_def)
  have c: "cpu_sum ?m = 7" "memory_sum ?m = 128" "cpu_sum Map.empty = 0"
    by (simp_all add: cpu_sum_def memory_sum_def container_a_def container_b_def)
  have w: "\<And>x :: uint. unat x = 7 \<Longrightarrow> x = 7" "\<And>x :: uint. unat x = 128 \<Longrightarrow> x = 128"
    "\<And>x :: uint. unat x = 0 \<Longrightarrow> x = 0"
    by (simp_all add: word_unat_eq_iff)
  from startup_state [of None two_slot_cfg None "[]"] e0
    startup_state [of "Some ?m" two_slot_cfg "Some []" "[''b'', ''a'']"] e1
  show ?thesis
    by (simp add: c w example_cfg_fields upt_2)
qed

subsection \<open>Port assignment\<close>

text \<open>
  Claim C3. When a successful \<open>reserve\<close> pops the slot index \<open>s\<close>, the container it
  stores has primary port \<open>MinPort + s\<close>, SSH port \<open>MinPort + NumContainers + s\<close> and
  \<open>NumSecondaryPorts\<close> secondary ports, the one at index \<open>i\<close> being
  \<open>MinPort + NumContainers * (i + 2) + s\<close>. The equations hold in \<open>uint16\<close> arithmetic,
  and for \<open>s\<close> below \<open>NumContainers\<close>, in a configuration within the port range
  bound, they hold in the natural numbers: nothing wraps around. The witness is the
  example of the spec: slots 0 and 3 with \<open>MinPort = 1000\<close>, \<open>NumContainers = 4\<close>,
  \<open>NumSecondaryPorts = 2\<close>.
\<close>

theorem reserve_port_assignment:
  assumes "reserve cfg st req = Some (st', Inr c)" and "ports st = s # rest"
  shows "containers st' (reserve_id req) = Some c \<and>
         PrimaryPort c = MinPort cfg + s \<and>
         SSHPort c = MinPort cfg + NumContainers cfg + s \<and>
         length (SecondaryPorts c) = unat (NumSecondaryPorts cfg) \<and>
         (\<forall>i < unat (NumSecondaryPorts cfg).
            SecondaryPorts c ! i = MinPort cfg + NumContainers cfg * (of_nat i + 2) + s) \<and>
         (\<not> port_bound_violated cfg \<longrightarrow> s < NumContainers cfg \<longrightarrow>
            unat (PrimaryPort c) = unat (MinPort cfg) + unat s \<and>
            unat (SSHPort c) = unat (MinPort cfg) + unat (NumContainers cfg) + unat s \<and>
            (\<forall>i < unat (NumSecondaryPorts cfg).
               unat (SecondaryPorts c ! i)
                 = unat (MinPort cfg) + unat (NumContainers cfg) * (i + 2) + unat s))"
proof -
  from assms(1) obtain port rest' where r:
    "ports st = port # rest'"
    "c = \<lparr>Id = reserve_id req, PrimaryPort = MinPort cfg + port,
          SSHPort = MinPort cfg + NumContainers cfg + port,
          SecondaryPorts = map (secondary_port cfg port) [0..<unat (NumSecondaryPorts cfg)],
          Manifest = reserve_manifest req\<rparr>"
    "st' = st\<lparr>containers := (containers st)(reserve_id req \<mapsto> c), ports := rest',
            usedMemoryLimit := usedMemoryLimit st + Manifest_MemoryLimit (reserve_manifest req),
            usedCPUShares := usedCPUShares st + Manifest_CPUShares (reserve_manifest req)\<rparr>"
    by (rule reserve_Some_Inr)
  from r(1) assms(2) have port: "port = s" by simp
  have stored: "containers st' (reserve_id req) = Some c"
    by (simp add: r(3))
  have words: "PrimaryPort c = MinPort cfg + s"
    "SSHPort c = MinPort cfg + NumContainers cfg + s"
    "length (SecondaryPorts c) = unat (NumSecondaryPorts cfg)"
    "\<forall>i < unat (NumSecondaryPorts cfg).
       SecondaryPorts c ! i = MinPort cfg + NumContainers cfg * (of_nat i + 2) + s"
    by (simp_all add: r(2) port secondary_port_def)
  have nats: "unat (PrimaryPort c) = unat (MinPort cfg) + unat s \<and>
            unat (SSHPort c) = unat (MinPort cfg) + unat (NumContainers cfg) + unat s \<and>
            (\<forall>i < unat (NumSecondaryPorts cfg).
               unat (SecondaryPorts c ! i)
                 = unat (MinPort cfg) + unat (NumContainers cfg) * (i + 2) + unat s)"
    if ok: "\<not> port_bound_violated cfg" and s: "s < NumContainers cfg"
  proof (intro conjI allI impI)
    show "unat (PrimaryPort c) = unat (MinPort cfg) + unat s"
      using port_no_wrap [OF ok s, of 0] by (simp add: words)
    show "unat (SSHPort c) = unat (MinPort cfg) + unat (NumContainers cfg) + unat s"
      using port_no_wrap [OF ok s, of 1] by (simp add: words)
    fix i assume i: "i < unat (NumSecondaryPorts cfg)"
    then have "i + 2 < unat (NumSecondaryPorts cfg) + 2" by simp
    from port_no_wrap [OF ok s this]
    have "unat (MinPort cfg + NumContainers cfg * (of_nat i + 2) + s)
            = unat (MinPort cfg) + unat (NumContainers cfg) * (i + 2) + unat s"
      by (simp only: of_nat_add of_nat_numeral)
    with i words(4) show "unat (SecondaryPorts c ! i)
            = unat (MinPort cfg) + unat (NumContainers cfg) * (i + 2) + unat s"
      by simp
  qed
  from stored words nats show ?thesis by blast
qed

theorem reserve_port_assignment_witness:
  "map_option snd (reserve example_cfg (fresh_state example_cfg) small_req)
     = Some (Inr slot0_container) \<and>
   ports (fresh_state example_cfg) = 0 # [1, 2, 3] \<and>
   PrimaryPort slot0_container = 1000 \<and> SSHPort slot0_container = 1004 \<and>
   SecondaryPorts slot0_container = [1008, 1012] \<and>
   map_option snd (reserve example_cfg recycled_state small_req)
     = Some (Inr slot3_container) \<and>
   ports recycled_state = 3 # [0, 1, 2] \<and>
   PrimaryPort slot3_container = 1003 \<and> SSHPort slot3_container = 1007 \<and>
   SecondaryPorts slot3_container = [1011, 1015]"
proof -
  have r0: "reserve example_cfg (fresh_state example_cfg) small_req
              = Some ((fresh_state example_cfg)\<lparr>containers := [''c'' \<mapsto> slot0_container],
                    ports := [1, 2, 3], usedMemoryLimit := 64, usedCPUShares := 1\<rparr>,
                  Inr slot0_container)"
    using reserve_example [of 0 "[1, 2, 3]"] fresh_state_example
    by (simp add: slot0_container_def)
  have r3: "reserve example_cfg recycled_state small_req
              = Some ((fresh_state example_cfg)\<lparr>containers := [''c'' \<mapsto> slot3_container],
                    ports := [0, 1, 2], usedMemoryLimit := 64, usedCPUShares := 1\<rparr>,
                  Inr slot3_container)"
    using reserve_example [of 3 "[0, 1, 2]"]
    by (simp add: recycled_state_def slot3_container_def)
  have p0: "ports (fresh_state example_cfg) = 0 # [1, 2, 3]"
    by (simp add: fresh_state_eq example_cfg_fields upt_4)
  have p3: "ports recycled_state = 3 # [0, 1, 2]"
    by (simp add: recycled_state_def)
  have l2: "\<And>xs :: uint16 list. length xs = 2 \<Longrightarrow> xs = [xs ! 0, xs ! 1]"
  proof -
    fix xs :: "uint16 list" assume "length xs = 2"
    then obtain a b where "xs = [a, b]"
      by (cases xs; cases "tl xs"; cases "tl (tl xs)") auto
    then show "xs = [xs ! 0, xs ! 1]" by simp
  qed
  from reserve_port_assignment [OF r0 p0]
  have "PrimaryPort slot0_container = 1000 \<and> SSHPort slot0_container = 1004 \<and>
        SecondaryPorts slot0_container = [1008, 1012]"
    using l2 [of "SecondaryPorts slot0_container"]
    by (simp add: example_cfg_fields)
  moreover from reserve_port_assignment [OF r3 p3]
  have "PrimaryPort slot3_container = 1003 \<and> SSHPort slot3_container = 1007 \<and>
        SecondaryPorts slot3_container = [1011, 1015]"
    using l2 [of "SecondaryPorts slot3_container"]
    by (simp add: example_cfg_fields)
  ultimately show ?thesis
    using r0 r3 p0 p3 by simp
qed

subsection \<open>Persistence\<close>

text \<open>
  Claim C1 asks that \<open>save\<close> runs after every successful mutating transition, before
  the reply. \<open>teardown\<close> does so (lemma \<open>teardown_saves\<close>); \<open>reserve\<close> has no call of
  \<open>save\<close>. Reserving in the freshly started registry of the example configuration
  succeeds and stores the container, and at the time of the reply neither object of
  the save directory has been written.
\<close>

theorem reserve_does_not_save:
  "map_option snd (reserve example_cfg (fresh_state example_cfg) small_req)
     = Some (Inr slot0_container) \<and>
   map_option (containers \<circ> fst) (reserve example_cfg (fresh_state example_cfg) small_req)
     = Some [''c'' \<mapsto> slot0_container] \<and>
   map_option (ContainersFile \<circ> fst) (reserve example_cfg (fresh_state example_cfg) small_req)
     = Some None \<and>
   map_option (PortsFile \<circ> fst) (reserve example_cfg (fresh_state example_cfg) small_req)
     = Some None"
  using reserve_example [of 0 "[1, 2, 3]"] fresh_state_example
  by (simp add: slot0_container_def fresh_state_eq)

subsection \<open>Validation of the port range\<close>

text \<open>
  Claim C9 says that \<open>Init\<close> returns an error exactly when
  \<open>MinPort + (NumSecondaryPorts + 2) * NumContainers - 1 > 65535\<close> in exact integer
  arithmetic. Two inputs show otherwise: with the bound respected, \<open>Init\<close> still
  returns the error of \<open>os.MkdirAll\<close> when the save directory cannot be created; and
  with \<open>MinPort = 0\<close> and \<open>NumContainers = 0\<close> the subtraction \<open>0 - 1\<close> wraps around in
  \<open>uint64\<close>, so that \<open>Init\<close> reports an invalid configuration although \<open>-1 \<le> 65535\<close>.
\<close>

theorem init_error_counterexample:
  "(snd mkdir_refused_init = Some (MkdirAllError ''permission denied'') \<and>
    \<not> actor_started mkdir_refused_init \<and>
    \<not> port_bound_violated (fst mkdir_refused_init)) \<and>
   (snd zero_init = Some InvalidConfig \<and>
    \<not> port_bound_violated (fst zero_init))"
  by (simp add: mkdir_refused_init_def zero_init_def Init_snd Init_fst actor_started_def
        port_range_exceeded_iff port_bound_violated_iff port_total_def)

text \<open>
  Claim C9 as amended. For a configuration in which \<open>MinPort\<close> and \<open>NumContainers\<close> are
  not both zero, \<open>Init\<close> returns the invalid-configuration error exactly when
  \<open>MinPort + (NumSecondaryPorts + 2) * NumContainers - 1 > 65535\<close> in exact integer
  arithmetic; when the bound holds it returns the error of \<open>os.MkdirAll\<close> if there is
  one and no error otherwise; and the actor is started exactly when no error is
  returned. The bound is not checked again afterwards: whether \<open>reserve\<close> answers with
  an error, and with which one, does not depend on \<open>MinPort\<close> or \<open>NumSecondaryPorts\<close>.
\<close>

theorem init_outcome:
  assumes "m \<noteq> 0 \<or> n \<noteq> 0"
  shows "(snd (Init r sd n k m cpu mem mk) = Some InvalidConfig
            \<longleftrightarrow> port_bound_violated (fst (Init r sd n k m cpu mem mk))) \<and>
         (\<not> port_bound_violated (fst (Init r sd n k m cpu mem mk))
            \<longrightarrow> snd (Init r sd n k m cpu mem mk) = map_option MkdirAllError mk) \<and>
         (actor_started (Init r sd n k m cpu mem mk)
            \<longleftrightarrow> \<not> port_bound_violated (fst (Init r sd n k m cpu mem mk)) \<and> mk = None) \<and>
         (\<forall>s req s' e m' k'.
            reserve ((fst (Init r sd n k m cpu mem mk))\<lparr>MinPort := m', NumSecondaryPorts := k'\<rparr>)
              s req = Some (s', Inl e)
            \<longleftrightarrow> reserve (fst (Init r sd n k m cpu mem mk)) s req = Some (s', Inl e))"
proof -
  let ?cfg = "fst (Init r sd n k m cpu mem mk)"
  from assms have "unat m \<noteq> 0 \<or> unat n \<noteq> 0"
    by (simp add: unat_eq_0)
  then have "port_total ?cfg \<noteq> 0"
    by (auto simp: port_total_def Init_fst)
  then have "port_range_exceeded ?cfg \<longleftrightarrow> port_bound_violated ?cfg"
    by (simp add: port_range_exceeded_iff port_bound_violated_iff)
  then have "(snd (Init r sd n k m cpu mem mk) = Some InvalidConfig \<longleftrightarrow> port_bound_violated ?cfg) \<and>
         (\<not> port_bound_violated ?cfg
            \<longrightarrow> snd (Init r sd n k m cpu mem mk) = map_option MkdirAllError mk) \<and>
         (actor_started (Init r sd n k m cpu mem mk)
            \<longleftrightarrow> \<not> port_bound_violated ?cfg \<and> mk = None)"
    by (cases mk) (simp_all add: Init_snd actor_started_def)
  moreover have "\<forall>s req s' e m' k'.
      reserve (?cfg\<lparr>MinPort := m', NumSecondaryPorts := k'\<rparr>) s req = Some (s', Inl e)
        \<longleftrightarrow> reserve ?cfg s req = Some (s', Inl e)"
    by (simp only: reserve_error_ports simp_thms)
  ultimately show ?thesis
    by (intro conjI) blast+
qed

theorem init_outcome_witness:
  "snd (Init ''registry'' ''save'' 4 2 1000 10 1024 None) = None \<and>
   actor_started (Init ''registry'' ''save'' 4 2 1000 10 1024 None) \<and>
   snd (Init ''registry'' ''save'' 4 2 65521 10 1024 None) = Some InvalidConfig \<and>
   \<not> actor_started (Init ''registry'' ''save'' 4 2 65521 10 1024 None) \<and>
   snd (Init ''registry'' ''save'' 4 2 65520 10 1024 None) = None"
proof -
  have v: "\<not> port_bound_violated (fst (Init ''registry'' ''save'' 4 2 1000 10 1024 None))"
    "port_bound_violated (fst (Init ''registry'' ''save'' 4 2 65521 10 1024 None))"
    "\<not> port_bound_violated (fst (Init ''registry'' ''save'' 4 2 65520 10 1024 None))"
    by (simp_all add: port_bound_violated_def Init_fst)
  have h: "(1000 :: uint16) \<noteq> 0 \<or> (4 :: uint16) \<noteq> 0" "(65521 :: uint16) \<noteq> 0 \<or> (4 :: uint16) \<noteq> 0"
    "(65520 :: uint16) \<noteq> 0 \<or> (4 :: uint16) \<noteq> 0"
    by simp_all
  from init_outcome [OF h(1), of "''registry''" "''save''" 2 10 1024 None]
    init_outcome [OF h(2), of "''registry''" "''save''" 2 10 1024 None]
    init_outcome [OF h(3), of "''registry''" "''save''" 2 10 1024 None] v
  show ?thesis by simp
qed

subsection \<open>The free pool as a queue\<close>

text \<open>
  Claim C10. The free pool is a first-in first-out queue. A successful \<open>reserve\<close>
  takes the slot at the head of the pool and leaves the tail; the slot is recovered
  from the stored container as its primary port minus \<open>MinPort\<close>. A successful
  \<open>teardown\<close> appends the slot recovered in this way at the end of the pool. So a slot
  that is reserved and then released moves from the head to the end, and two slots
  released one after the other are queued in the order of their release.
\<close>

theorem free_pool_fifo:
  "(\<forall>s' c. reserve cfg s req = Some (s', Inr c) \<longrightarrow>
      ports s = slot_of cfg c # ports s' \<and> containers s' (reserve_id req) = Some c \<and>
      ports (fst (teardown cfg s' \<lparr>teardown_id = reserve_id req\<rparr>))
        = ports s' @ [slot_of cfg c]) \<and>
   (\<forall>c. containers s (teardown_id treq) = Some c \<longrightarrow>
      ports (fst (teardown cfg s treq)) = ports s @ [slot_of cfg c]) \<and>
   (\<forall>a b ca cb. containers s a = Some ca \<longrightarrow> containers s b = Some cb \<longrightarrow> a \<noteq> b \<longrightarrow>
      ports (fst (teardown cfg (fst (teardown cfg s \<lparr>teardown_id = a\<rparr>)) \<lparr>teardown_id = b\<rparr>))
        = ports s @ [slot_of cfg ca, slot_of cfg cb])"
proof (intro conjI allI impI)
  fix s' c
  assume r: "reserve cfg s req = Some (s', Inr c)"
  then obtain port rest where p: "ports s = port # rest"
    and c: "c = \<lparr>Id = reserve_id req, PrimaryPort = MinPort cfg + port,
          SSHPort = MinPort cfg + NumContainers cfg + port,
          SecondaryPorts = map (secondary_port cfg port) [0..<unat (NumSecondaryPorts cfg)],
          Manifest = reserve_manifest req\<rparr>"
    and s': "s' = s\<lparr>containers := (containers s)(reserve_id req \<mapsto> c), ports := rest,
            usedMemoryLimit := usedMemoryLimit s + Manifest_MemoryLimit (reserve_manifest req),
            usedCPUShares := usedCPUShares s + Manifest_CPUShares (reserve_manifest req)\<rparr>"
    by (rule reserve_Some_Inr)
  from c have slot: "slot_of cfg c = port"
    by (simp add: slot_of_def)
  from p s' slot show "ports s = slot_of cfg c # ports s'"
    by simp
  from s' show stored: "containers s' (reserve_id req) = Some c"
    by simp
  then have "containers s' (teardown_id \<lparr>teardown_id = reserve_id req\<rparr>) = Some c"
    by simp
  then show "ports (fst (teardown cfg s' \<lparr>teardown_id = reserve_id req\<rparr>))
        = ports s' @ [slot_of cfg c]"
    by (simp add: teardown_present slot_of_def)
next
  fix c
  assume "containers s (teardown_id treq) = Some c"
  then show "ports (fst (teardown cfg s treq)) = ports s @ [slot_of cfg c]"
    by (simp add: teardown_present slot_of_def)
next
  fix a b ca cb
  assume a: "containers s a = Some ca" and b: "containers s b = Some cb" and ab: "a \<noteq> b"
  let ?s1 = "fst (teardown cfg s \<lparr>teardown_id = a\<rparr>)"
  from a have "containers s (teardown_id \<lparr>teardown_id = a\<rparr>) = Some ca"
    by simp
  then have s1: "ports ?s1 = ports s @ [slot_of cfg ca]"
    "containers ?s1 = (containers s)(a := None)"
    by (simp_all add: teardown_present slot_of_def)
  from s1(2) b ab have "containers ?s1 (teardown_id \<lparr>teardown_id = b\<rparr>) = Some cb"
    by simp
  then have "ports (fst (teardown cfg ?s1 \<lparr>teardown_id = b\<rparr>)) = ports ?s1 @ [slot_of cfg cb]"
    by (simp add: teardown_present slot_of_def)
  with s1(1) show "ports (fst (teardown cfg ?s1 \<lparr>teardown_id = b\<rparr>))
        = ports s @ [slot_of cfg ca, slot_of cfg cb]"
    by simp
qed

theorem free_pool_fifo_witness:
  "map_option (ports \<circ> fst) (reserve example_cfg (fresh_state example_cfg) small_req)
     = Some [1, 2, 3] \<and>
   slot_of example_cfg slot0_container = 0 \<and>
   ports (fst (teardown example_cfg
            (fst (the (reserve example_cfg (fresh_state example_cfg) small_req)))
            \<lparr>teardown_id = ''c''\<rparr>)) = [1, 2, 3, 0] \<and>
   ports (fst (teardown two_slot_cfg (fst (teardown two_slot_cfg full_state \<lparr>teardown_id = ''b''\<rparr>))
            \<lparr>teardown_id = ''a''\<rparr>)) = [1, 0]"
proof -
  have r0: "reserve example_cfg (fresh_state example_cfg) small_req
              = Some ((fresh_state example_cfg)\<lparr>containers := [''c'' \<mapsto> slot0_container],
                    ports := [1, 2, 3], usedMemoryLimit := 64, usedCPUShares := 1\<rparr>,
                  Inr slot0_container)"
    using reserve_example [of 0 "[1, 2, 3]"] fresh_state_example
    by (simp add: slot0_container_def)
  have id: "reserve_id small_req = ''c''"
    by (simp add: small_req_def)
  have ab: "containers full_state ''b'' = Some container_b"
    "containers full_state ''a'' = Some container_a" "''b'' \<noteq> ''a''"
    by (simp_all add: full_state_def)
  have slots: "slot_of two_slot_cfg container_a = 0" "slot_of two_slot_cfg container_b = 1"
    "slot_of example_cfg slot0_container = 0" "ports full_state = []"
    by (simp_all add: slot_of_def container_a_def container_b_def slot0_container_def
          example_cfg_fields full_state_def)
  from free_pool_fifo [of example_cfg "fresh_state example_cfg" small_req]
    free_pool_fifo [of two_slot_cfg full_state] r0 id ab slots
  show ?thesis
    by simp
qed

subsection \<open>Accounting\<close>

text \<open>
  Claim C2 says that after every operation of every run from a loaded state each
  counter equals the sum of the manifest field over the active containers and is
  at most its limit. Two runs show otherwise. Started from a snapshot whose two
  containers hold 7 CPU shares under a configuration with \<open>CPUShares = 5\<close>, the
  registry answers a teardown of an unknown id and is left with 7 used shares. Started
  fresh with \<open>CPUShares = 10\<close>, a reservation of 1 share followed by one of
  \<open>2 ^ 64 - 1\<close> shares passes the check \<open>manifest.CPUShares+usedCPUShares > CPUShares\<close>,
  whose sum wraps around to 0: both containers are active and the counter is 0.
\<close>

theorem accounting_counterexample:
  "(serve overcommitted_cfg overcommitted_start [TeardownRequest \<lparr>teardown_id = ''zz''\<rparr>]
      = Some overcommitted_start \<and>
    cpu_sum (containers overcommitted_start) = 7 \<and>
    unat (CPUShares overcommitted_cfg) = 5) \<and>
   (serve example_cfg (fresh_state example_cfg) [ReserveRequest small_req, ReserveRequest huge_req]
      = Some wrapped_state \<and>
    unat (usedCPUShares wrapped_state) = 0 \<and>
    cpu_sum (containers wrapped_state) = 18446744073709551616)"
proof -
  have a: "containers overcommitted_start = [''a'' \<mapsto> container_a, ''b'' \<mapsto> container_b]"
    by (simp add: overcommitted_start_def containerManager_fields loaded_map_def)
  then have "teardown overcommitted_cfg overcommitted_start \<lparr>teardown_id = ''zz''\<rparr>
               = (overcommitted_start, False)"
    by (simp add: teardown_absent)
  then have 1: "serve overcommitted_cfg overcommitted_start [TeardownRequest \<lparr>teardown_id = ''zz''\<rparr>]
      = Some overcommitted_start"
    by simp
  have 2: "cpu_sum (containers overcommitted_start) = 7"
    by (simp add: a cpu_sum_def container_a_def container_b_def)
  have 3: "unat (CPUShares overcommitted_cfg) = 5"
    by (simp add: overcommitted_cfg_def)
  note 4 = wrapped_run
  have 5: "unat (usedCPUShares wrapped_state) = 0"
    by (simp add: wrapped_state_def)
  have 6: "cpu_sum (containers wrapped_state) = 18446744073709551616"
    by (simp add: wrapped_state_def cpu_sum_def slot0_container_def huge_req_def)
  from 1 2 3 4 5 6 show ?thesis by blast
qed

text \<open>
  Claim C2 as amended. Start from a loaded state whose containers ask for no more than
  the configured CPU shares and memory, and run any sequence of reservations and
  teardowns in which no reservation makes a counter leave the range of \<open>uint\<close>. Then
  after each operation that completes, \<open>usedCPUShares\<close> is the sum of the CPU shares of
  the active containers and at most \<open>CPUShares\<close>, and \<open>usedMemoryLimit\<close> is the sum of
  their memory limits and at most \<open>MemoryLimit\<close>.
\<close>

theorem accounting_invariant:
  assumes "enumerates ks (loaded_map cf)"
    and "cpu_sum (loaded_map cf) \<le> unat (CPUShares cfg)"
    and "memory_sum (loaded_map cf) \<le> unat (MemoryLimit cfg)"
    and "run_fits cfg (containerManager cfg cf pf ks) rs"
    and "serve cfg (containerManager cfg cf pf ks) (take n rs) = Some s'"
  shows "unat (usedCPUShares s') = cpu_sum (containers s') \<and>
         cpu_sum (containers s') \<le> unat (CPUShares cfg) \<and>
         unat (usedMemoryLimit s') = memory_sum (containers s') \<and>
         memory_sum (containers s') \<le> unat (MemoryLimit cfg)"
proof -
  have "accounted cfg (containerManager cfg cf pf ks)"
    using assms(1-3) by (rule accounted_loaded)
  moreover from assms(1) have "finite (dom (containers (containerManager cfg cf pf ks)))"
    by (metis List.finite_set containerManager_fields(1) enumerates_def)
  ultimately have "accounted cfg s'"
    using assms(4,5) by (rule accounted_serve)
  then show ?thesis by (simp add: accounted_def)
qed

theorem accounting_invariant_witness:
  "serve example_cfg (containerManager example_cfg None None [])
     (take 1 [ReserveRequest small_req, TeardownRequest \<lparr>teardown_id = ''c''\<rparr>])
     = Some ((fresh_state example_cfg)\<lparr>containers := [''c'' \<mapsto> slot0_container],
                    ports := [1, 2, 3], usedMemoryLimit := 64, usedCPUShares := 1\<rparr>) \<and>
   cpu_sum [''c'' \<mapsto> slot0_container] = 1 \<and> memory_sum [''c'' \<mapsto> slot0_container] = 64"
proof -
  let ?s1 = "(fresh_state example_cfg)\<lparr>containers := [''c'' \<mapsto> slot0_container],
                    ports := [1, 2, 3], usedMemoryLimit := 64, usedCPUShares := 1\<rparr>"
  have r0: "reserve example_cfg (fresh_state example_cfg) small_req = Some (?s1, Inr slot0_container)"
    using reserve_example [of 0 "[1, 2, 3]"] fresh_state_example
    by (simp add: slot0_container_def)
  have e: "enumerates [] (loaded_map None)"
    by (simp add: enumerates_def loaded_map_def)
  have l: "cpu_sum (loaded_map None) \<le> unat (CPUShares example_cfg)"
    "memory_sum (loaded_map None) \<le> unat (MemoryLimit example_cfg)"
    by (simp_all add: loaded_map_def cpu_sum_def memory_sum_def)
  have f: "run_fits example_cfg (containerManager example_cfg None None [])
             [ReserveRequest small_req, TeardownRequest \<lparr>teardown_id = ''c''\<rparr>]"
    using r0 by (simp add: fresh_state_def [symmetric]) (simp add: fresh_state_eq small_req_def)
  have s: "serve example_cfg (containerManager example_cfg None None [])
     (take 1 [ReserveRequest small_req, TeardownRequest \<lparr>teardown_id = ''c''\<rparr>]) = Some ?s1"
    using r0 by (simp add: fresh_state_def [symmetric])
  from accounting_invariant [OF e l f s] s show ?thesis
    by simp
qed

subsection \<open>Slots\<close>

text \<open>
  Claim C7 says that in every reachable state the occupied slots and the free pool
  are disjoint and together the indices below \<open>NumContainers\<close>. \<open>containerManager\<close>
  loads the containers object and the ports object each on its own and compares
  neither with the other nor with the configuration. Started on a save directory that
  holds a container on slot 0 and no ports object, the pool is rebuilt as
  \<open>[0, 1, 2, 3]\<close>: slot 0 is occupied and free, and containers plus pool count 5 with
  \<open>NumContainers = 4\<close>. Started on a ports object \<open>[2, 3]\<close> and no containers object,
  slots 0 and 1 are neither occupied nor free.
\<close>

theorem slot_partition_counterexample:
  "(reachable example_cfg half_loaded half_loaded \<and>
    occupied example_cfg (containers half_loaded) \<inter> set (ports half_loaded) = {0} \<and>
    card (dom (containers half_loaded)) + length (ports half_loaded) = 5 \<and>
    unat (NumContainers example_cfg) = 4) \<and>
   (reachable example_cfg pool_only pool_only \<and>
    occupied example_cfg (containers pool_only) \<union> set (ports pool_only) = {2, 3} \<and>
    {w. w < NumContainers example_cfg} = {0, 1, 2, 3})"
proof -
  have 1: "reachable example_cfg half_loaded half_loaded"
    and 2: "reachable example_cfg pool_only pool_only"
    by (rule reachable.started)+
  have 3: "occupied example_cfg (containers half_loaded) \<inter> set (ports half_loaded) = {0}"
    by (simp add: half_loaded_eq occupied_def slot_of_def held_container_def example_cfg_fields)
  have 4: "card (dom (containers half_loaded)) + length (ports half_loaded) = 5"
    by (simp add: half_loaded_eq)
  have 5: "unat (NumContainers example_cfg) = 4"
    by (simp add: example_cfg_fields)
  have 6: "occupied example_cfg (containers pool_only) \<union> set (ports pool_only) = {2, 3}"
    by (simp add: pool_only_eq occupied_empty)
  have 7: "{w. w < NumContainers example_cfg} = {0, 1, 2, 3}"
    by (simp add: example_cfg_fields slots_below_4)
  from 1 2 3 4 5 6 7 show ?thesis by blast
qed

text \<open>
  Claim C7 as amended. Let the state with which \<open>containerManager\<close> starts partition
  the slot indices: its pool has no duplicates, different containers have different
  slots, and the occupied slots and the pool are disjoint and together the indices
  below \<open>NumContainers\<close> (a start on an empty save directory does). Then in every
  state reached from it by reservations, teardowns and restarts, the occupied slots and
  the free pool are disjoint and together exactly the indices below \<open>NumContainers\<close>,
  different containers occupy different slots and the pool has no duplicates; so the
  number of active containers plus the length of the pool is \<open>NumContainers\<close>, the
  number of active containers never exceeds it, and the capacity neither grows nor
  shrinks.
\<close>

theorem slot_partition:
  assumes "partition_ok cfg (containers (containerManager cfg cf pf ks))
             (ports (containerManager cfg cf pf ks))"
    and "reachable cfg (containerManager cfg cf pf ks) s"
  shows "occupied cfg (containers s) \<inter> set (ports s) = {} \<and>
         occupied cfg (containers s) \<union> set (ports s) = {w. w < NumContainers cfg} \<and>
         distinct (ports s) \<and>
         (\<forall>a b ca cb. containers s a = Some ca \<longrightarrow> containers s b = Some cb \<longrightarrow> a \<noteq> b
            \<longrightarrow> slot_of cfg ca \<noteq> slot_of cfg cb) \<and>
         card (dom (containers s)) \<le> unat (NumContainers cfg) \<and>
         card (dom (containers s)) + length (ports s) = unat (NumContainers cfg)"
proof -
  from assms(1) have "partition_inv cfg (containerManager cfg cf pf ks)"
    by (rule partition_inv_start)
  then have "partition_inv cfg s"
    using assms(2) by (rule reachable_partition)
  then have ok: "partition_ok cfg (containers s) (ports s)"
    by (simp add: partition_inv_def)
  from partition_ok_card(2) [OF ok] have "card (dom (containers s)) \<le> unat (NumContainers cfg)"
    by simp
  with ok partition_ok_card(2) [OF ok] show ?thesis
    unfolding partition_ok_def by blast
qed

theorem slot_partition_witness:
  "partition_ok example_cfg (containers (containerManager example_cfg None None []))
     (ports (containerManager example_cfg None None [])) \<and>
   reachable example_cfg (containerManager example_cfg None None []) wrapped_state \<and>
   occupied example_cfg (containers wrapped_state) \<inter> {2, 3} = {} \<and>
   occupied example_cfg (containers wrapped_state) \<union> {2, 3} = {w. w < 4} \<and>
   card (dom (containers wrapped_state)) = 2"
proof -
  have start: "partition_ok example_cfg (containers (containerManager example_cfg None None []))
     (ports (containerManager example_cfg None None []))"
    by (simp add: loaded_state loaded_map_def loaded_pool_def partition_ok_fresh)
  have reach: "reachable example_cfg (containerManager example_cfg None None []) wrapped_state"
    using reachable_wrapped by (simp only: fresh_state_def)
  have p: "ports wrapped_state = [2, 3]"
    by (simp add: wrapped_state_def)
  from slot_partition [OF start reach] start reach show ?thesis
    by (simp add: p example_cfg_fields)
qed

subsection \<open>Ports of different containers\<close>

text \<open>
  Claim C4 says that under the port range bound no two active containers of a
  reachable state share a port. The example configuration respects the bound. Started
  on a save directory that holds a container on slot 0 and no ports object, the
  registry answers the next reservation with slot 0 again: the two active containers
  hold the same four ports. Started on a snapshot that partitions the slots but whose
  container on slot 0 holds the ports computed for \<open>NumContainers = 1\<close>, its SSH port
  1001 is the primary port of the container on slot 1.
\<close>

theorem ports_never_shared_counterexample:
  "\<not> port_bound_violated example_cfg \<and>
   (reachable example_cfg half_loaded double_booked \<and>
    containers double_booked ''a'' = Some held_container \<and>
    containers double_booked ''c'' = Some slot0_container \<and>
    container_ports held_container \<inter> container_ports slot0_container
      = {1000, 1004, 1008, 1012}) \<and>
   (reachable example_cfg renumbered_start renumbered_start \<and>
    partition_ok example_cfg (containers renumbered_start) (ports renumbered_start) \<and>
    containers renumbered_start ''a'' = Some stale_container \<and>
    containers renumbered_start ''d'' = Some slot1_container \<and>
    1001 \<in> container_ports stale_container \<inter> container_ports slot1_container)"
proof -
  have "reachable example_cfg half_loaded half_loaded"
    by (rule reachable.started)
  then have 1: "reachable example_cfg half_loaded double_booked"
    using reserve_half_loaded by (rule reachable.reserved)
  have 2: "containers double_booked ''a'' = Some held_container"
    "containers double_booked ''c'' = Some slot0_container"
    by (simp_all add: double_booked_def)
  have 3: "container_ports held_container \<inter> container_ports slot0_container
      = {1000, 1004, 1008, 1012}"
    by (auto simp: container_ports_def held_container_def slot0_container_def)
  have 4: "reachable example_cfg renumbered_start renumbered_start"
    by (rule reachable.started)
  have 5: "containers renumbered_start ''a'' = Some stale_container"
    "containers renumbered_start ''d'' = Some slot1_container"
    by (simp_all add: renumbered_start_fields)
  have 6: "1001 \<in> container_ports stale_container \<inter> container_ports slot1_container"
    by (simp add: container_ports_def stale_container_def slot1_container_def)
  from port_range_example 1 2 3 4 renumbered_partition 5 6 show ?thesis by blast
qed

text \<open>
  Claim C4 as amended. Let
  \<open>MinPort + (NumSecondaryPorts + 2) * NumContainers - 1 \<le> 65535\<close>, and let the state
  with which \<open>containerManager\<close> starts partition the slot indices (as for C7) and hold
  only containers whose SSH port and secondary ports are the ones derived from their
  slot under the configuration (a start on an empty save directory does). Then in
  every state reached from it by reservations, teardowns and restarts, two different
  active containers have no port in common: primary ports, SSH ports and secondary
  ports of the one are all different from those of the other.
\<close>

theorem ports_never_shared:
  assumes ok: "\<not> port_bound_violated cfg"
    and part: "partition_ok cfg (containers (containerManager cfg cf pf ks))
             (ports (containerManager cfg cf pf ks))"
    and derived: "all_derived cfg (containers (containerManager cfg cf pf ks))"
    and reach: "reachable cfg (containerManager cfg cf pf ks) s"
    and a: "containers s a = Some ca" and b: "containers s b = Some cb" and ab: "a \<noteq> b"
  shows "container_ports ca \<inter> container_ports cb = {}"
proof (rule ccontr)
  assume "container_ports ca \<inter> container_ports cb \<noteq> {}"
  then obtain p where pa: "p \<in> container_ports ca" and pb: "p \<in> container_ports cb"
    by auto
  from part have "partition_inv cfg (containerManager cfg cf pf ks)"
    by (rule partition_inv_start)
  then have "partition_inv cfg s"
    using reach by (rule reachable_partition)
  then have inv: "partition_ok cfg (containers s) (ports s)"
    by (simp add: partition_inv_def)
  from derived have "derived_inv cfg (containerManager cfg cf pf ks)"
    by (rule derived_inv_start)
  then have "derived_inv cfg s"
    using reach by (rule reachable_derived)
  then have alld: "all_derived cfg (containers s)"
    by (simp add: derived_inv_def)
  from a b have ran: "ca \<in> ran (containers s)" "cb \<in> ran (containers s)"
    by (auto simp: ran_def)
  with alld have der: "ports_derived cfg ca" "ports_derived cfg cb"
    by (simp_all add: all_derived_def)
  from ran have "slot_of cfg ca \<in> occupied cfg (containers s)"
    "slot_of cfg cb \<in> occupied cfg (containers s)"
    by (simp_all add: occupied_def)
  with inv have lt: "slot_of cfg ca < NumContainers cfg" "slot_of cfg cb < NumContainers cfg"
    unfolding partition_ok_def by blast+
  from inv a b ab have ne: "slot_of cfg ca \<noteq> slot_of cfg cb"
    unfolding partition_ok_def by blast
  from container_ports_band [OF der(1) pa] obtain k
    where k: "k < unat (NumSecondaryPorts cfg) + 2"
      and pk: "p = MinPort cfg + NumContainers cfg * of_nat k + slot_of cfg ca"
    by blast
  from container_ports_band [OF der(2) pb] obtain k'
    where k': "k' < unat (NumSecondaryPorts cfg) + 2"
      and pk': "p = MinPort cfg + NumContainers cfg * of_nat k' + slot_of cfg cb"
    by blast
  from port_no_wrap [OF ok lt(1) k] pk
  have ua: "unat p = unat (MinPort cfg) + unat (NumContainers cfg) * k + unat (slot_of cfg ca)"
    by simp
  from port_no_wrap [OF ok lt(2) k'] pk'
  have ub: "unat p = unat (MinPort cfg) + unat (NumContainers cfg) * k' + unat (slot_of cfg cb)"
    by simp
  from lt have "unat (slot_of cfg ca) < unat (NumContainers cfg)"
    "unat (slot_of cfg cb) < unat (NumContainers cfg)"
    by (simp_all add: word_less_nat_alt)
  moreover from ua ub have "unat (NumContainers cfg) * k + unat (slot_of cfg ca)
      = unat (NumContainers cfg) * k' + unat (slot_of cfg cb)"
    by simp
  ultimately have "unat (slot_of cfg ca) = unat (slot_of cfg cb)"
    by (rule band_slot_unique)
  then have "slot_of cfg ca = slot_of cfg cb"
    by (simp only: word_unat_eq_iff)
  with ne show False by contradiction
qed

theorem ports_never_shared_witness:
  "\<not> port_bound_violated example_cfg \<and>
   reachable example_cfg (containerManager example_cfg None None []) wrapped_state \<and>
   containers wrapped_state ''c'' = Some slot0_container \<and>
   containers wrapped_state ''d'' =
     Some \<lparr>Id = ''d'', PrimaryPort = 1001, SSHPort = 1005, SecondaryPorts = [1009, 1013],
           Manifest = reserve_manifest huge_req\<rparr> \<and>
   container_ports slot0_container = {1000, 1004, 1008, 1012} \<and>
   container_ports slot0_container
     \<inter> container_ports \<lparr>Id = ''d'', PrimaryPort = 1001, SSHPort = 1005,
                           SecondaryPorts = [1009, 1013],
                           Manifest = reserve_manifest huge_req\<rparr> = {}"
proof -
  have start: "partition_ok example_cfg (containers (containerManager example_cfg None None []))
     (ports (containerManager example_cfg None None []))"
    by (simp add: loaded_state loaded_map_def loaded_pool_def partition_ok_fresh)
  have der: "all_derived example_cfg (containers (containerManager example_cfg None None []))"
    by (simp add: loaded_state loaded_map_def all_derived_def)
  have reach: "reachable example_cfg (containerManager example_cfg None None []) wrapped_state"
    using reachable_wrapped by (simp only: fresh_state_def)
  have c: "containers wrapped_state ''c'' = Some slot0_container"
    and d: "containers wrapped_state ''d'' =
              Some \<lparr>Id = ''d'', PrimaryPort = 1001, SSHPort = 1005,
                           SecondaryPorts = [1009, 1013],
                           Manifest = reserve_manifest huge_req\<rparr>"
    and cd: "''c'' \<noteq> ''d''"
    by (simp_all add: wrapped_state_def)
  have "container_ports slot0_container = {1000, 1004, 1008, 1012}"
    by (auto simp: container_ports_def slot0_container_def)
  with ports_never_shared [OF port_range_example start der reach c d cd]
    port_range_example reach c d
  show ?thesis
    by (simp only: simp_thms)
qed

end
